theory Spec2Isabelle
  imports Main
begin

section \<open>Items\<close>

text \<open>
  The union \<^verbatim>\<open>'prev' | 'next' | 'submit'\<close> is both \<^verbatim>\<open>ButtonType\<close> and the type of a
  navigation request (\<^verbatim>\<open>handleClick\<close> passes the one as the other). The element types
  \<^verbatim>\<open>'card' | 'set' | 'group' | 'field'\<close> are those \<^verbatim>\<open>clearHierarchyData\<close> and
  \<^verbatim>\<open>setChildrenActive\<close> compare with; \<open>LInput\<close> is the type of a leaf input.
\<close>

datatype direction = Prev | Next | Submit

datatype level = LCard | LSet | LGroup | LField | LInput

text \<open>
  \<^verbatim>\<open>parentHierarchy\<close>: an index into each ancestor level, \<^verbatim>\<open>number | null\<close>. The source
  tests \<^verbatim>\<open>!== null && >= 0\<close>, so the index is an \<open>int option\<close>.
\<close>

record hierarchy =
  cardIndex :: "int option"
  setIndex :: "int option"
  groupIndex :: "int option"
  fieldIndex :: "int option"

text \<open>
  What every item has; the DOM handles are left out, no function embedded here reads them.
  A button adds \<^verbatim>\<open>disabled\<close> and \<^verbatim>\<open>visible\<close>, an item of a level registry adds
  \<^verbatim>\<open>current\<close> and \<^verbatim>\<open>parentHierarchy\<close>, an input adds \<^verbatim>\<open>isIncluded\<close> and
  \<^verbatim>\<open>isValid\<close> to those.
\<close>

record 't baseItem =
  index :: nat
  id' :: string
  active :: bool
  type :: 't

record buttonItem = "direction baseItem" +
  disabled :: bool
  visible :: bool

record item = "level baseItem" +
  current :: bool
  parentHierarchy :: hierarchy

record inputItem = item +
  isIncluded :: bool
  isValid :: bool

section \<open>The level registry\<close>

text \<open>
  Modelled from the spec: the level registry of section 4.1, "instantiated once per
  level". The managers of the five levels (\<^verbatim>\<open>cardManager\<close>, \<^verbatim>\<open>setManager\<close>,
  \<^verbatim>\<open>groupManager\<close>, \<^verbatim>\<open>fieldManager\<close>, \<^verbatim>\<open>inputManager\<close>) are called by the
  NavigationManager and defined elsewhere. A registry is the ordered collection of its
  items; \<open>rebuilds\<close> counts the calls of \<^verbatim>\<open>rebuildAll\<close>, so that a rebuild is visible
  in the state.
\<close>

record 'a registry =
  items :: "'a list"
  rebuilds :: nat

text \<open>
  The position of the first item that satisfies a predicate (\<^verbatim>\<open>Array.findIndex\<close>, with
  \<open>None\<close> for -1).
\<close>

fun findIndex :: "('a \<Rightarrow> bool) \<Rightarrow> 'a list \<Rightarrow> nat option" where
  "findIndex P [] = None"
| "findIndex P (x # xs) = (if P x then Some 0 else map_option Suc (findIndex P xs))"

text \<open>
  Modelled from the spec: \<^verbatim>\<open>getByIndex(i)\<close> of the level registry, "returns item at
  ordinal position i or undefined if out of range".
\<close>

definition getByIndex :: "nat \<Rightarrow> 'a registry \<Rightarrow> 'a option" where
  "getByIndex i r = (if i < length (items r) then Some (items r ! i) else None)"

text \<open>
  Modelled from the spec: \<^verbatim>\<open>getNextPosition()\<close> of the level registry, "the ordinal
  index of the next/previous item relative to the current \<^verbatim>\<open>current\<close> item at that
  level, or undefined if no such item exists (boundary reached), never wraps". With no
  current item there is no item relative to it.
\<close>

definition getNextPosition :: "'a item_scheme registry \<Rightarrow> nat option" where
  "getNextPosition r =
     (case findIndex current (items r) of
        None \<Rightarrow> None
      | Some c \<Rightarrow> if Suc c < length (items r) then Some (Suc c) else None)"

text \<open>
  Modelled from the spec: \<^verbatim>\<open>getPrevPosition()\<close> of the level registry, by the same
  sentence.
\<close>

definition getPrevPosition :: "'a item_scheme registry \<Rightarrow> nat option" where
  "getPrevPosition r =
     (case findIndex current (items r) of
        None \<Rightarrow> None
      | Some c \<Rightarrow> if 0 < c then Some (c - 1) else None)"

text \<open>
  Modelled from the spec: \<^verbatim>\<open>clearActiveAndCurrent()\<close> of the level registry, "sets
  every item's active/current to false".
\<close>

definition clearActiveAndCurrent :: "'a item_scheme registry \<Rightarrow> 'a item_scheme registry" where
  "clearActiveAndCurrent r =
     r\<lparr>items := map (\<lambda>i. i\<lparr>active := False, current := False\<rparr>) (items r)\<rparr>"

text \<open>
  Modelled from the spec: the argument \<^verbatim>\<open>idOrIndex\<close> of \<^verbatim>\<open>setActive\<close> and
  \<^verbatim>\<open>setCurrent\<close>. The NavigationManager passes an id (\<^verbatim>\<open>targetGroup.id\<close>, a string) in
  the resolvers and an index (\<^verbatim>\<open>groupIndex\<close>, a number) in \<^verbatim>\<open>updateHierarchyData\<close>.
\<close>

datatype idOrIndex = Id string | Index int

text \<open>
  The cause an error carries: \<^verbatim>\<open>{ behavior }\<close> in \<^verbatim>\<open>handleMove\<close>, and
  \<^verbatim>\<open>{ targetPosition, targetField, direction }\<close>, with the target undefined, in a
  resolver.
\<close>

datatype cause =
  BehaviorCause string
  | TargetCause nat direction

text \<open>
  Modelled from the spec: the errors. \<^verbatim>\<open>createError(message, phase, {cause})\<close> of the
  form builds the error the NavigationManager throws ("fatal errors are thrown with
  structured cause payloads"); \<open>NoSuchItem\<close> is the "typed failure with the offending
  index captured" of the level registry.
\<close>

datatype error =
  FormError string string cause
  | NoSuchItem idOrIndex

text \<open>
  Modelled from the spec: the one item an \<^verbatim>\<open>idOrIndex\<close> names. An id names the item
  that has it ("unique within its level": the first, should there be several); an index
  names the item at that ordinal position, and none past the range.
\<close>

fun resolve :: "idOrIndex \<Rightarrow> 'a item_scheme list \<Rightarrow> nat option" where
  "resolve (Id x) its = findIndex (\<lambda>i. id' i = x) its"
| "resolve (Index n) its = (if 0 \<le> n \<and> nat n < length its then Some (nat n) else None)"

text \<open>
  Modelled from the spec: \<^verbatim>\<open>setActive(idOrIndex)\<close> of the level registry, "sets the
  flag on exactly one item, leaving others alone", and "indexing past the known range is
  a programmer error surfaced as a typed failure with the offending index captured, not
  silently clamped". The spec gives no behaviour for an id that names no item; the model
  fails there too.
\<close>

definition setActive :: "idOrIndex \<Rightarrow> 'a item_scheme registry \<Rightarrow> error + 'a item_scheme registry" where
  "setActive sel r =
     (case resolve sel (items r) of
        None \<Rightarrow> Inl (NoSuchItem sel)
      | Some p \<Rightarrow> Inr (r\<lparr>items := (items r)[p := (items r ! p)\<lparr>active := True\<rparr>]\<rparr>))"

text \<open>
  Modelled from the spec: \<^verbatim>\<open>setCurrent(idOrIndex)\<close> of the level registry, by the same
  sentences.
\<close>

definition setCurrent :: "idOrIndex \<Rightarrow> 'a item_scheme registry \<Rightarrow> error + 'a item_scheme registry" where
  "setCurrent sel r =
     (case resolve sel (items r) of
        None \<Rightarrow> Inl (NoSuchItem sel)
      | Some p \<Rightarrow> Inr (r\<lparr>items := (items r)[p := (items r ! p)\<lparr>current := True\<rparr>]\<rparr>))"

text \<open>
  Modelled from the spec: the index a \<^verbatim>\<open>parentHierarchy\<close> stores for the level of a
  parent (\<^verbatim>\<open>cardIndex\<close>, \<^verbatim>\<open>setIndex\<close>, \<^verbatim>\<open>groupIndex\<close>; \<^verbatim>\<open>fieldIndex\<close> for an input).
\<close>

definition parentIndex :: "level \<Rightarrow> hierarchy \<Rightarrow> int option" where
  "parentIndex parentType h =
     (case parentType of
        LCard \<Rightarrow> cardIndex h
      | LSet \<Rightarrow> setIndex h
      | LGroup \<Rightarrow> groupIndex h
      | LField \<Rightarrow> fieldIndex h
      | LInput \<Rightarrow> None)"

text \<open>
  Modelled from the spec: what "whose parentHierarchy resolves to parentId" means for
  \<^verbatim>\<open>setActiveByParent\<close>, which is defined with the level registry. The child's index
  for the parent's level is present and names, in the parent's registry, the item with
  that id.
\<close>

definition resolvesTo :: "item list \<Rightarrow> string \<Rightarrow> level \<Rightarrow> 'a item_scheme \<Rightarrow> bool" where
  "resolvesTo parents parentId parentType child =
     (case parentIndex parentType (parentHierarchy child) of
        None \<Rightarrow> False
      | Some i \<Rightarrow>
          0 \<le> i \<and> nat i < length parents \<and> id' (parents ! nat i) = parentId)"

text \<open>
  Modelled from the spec: the loop of \<^verbatim>\<open>setActiveByParent\<close> over the items, in order.
  Every child is marked active; the first child met is also marked current when
  \<open>firstIsCurrent\<close> is set, and no later one is.
\<close>

fun markChildren :: "('a item_scheme \<Rightarrow> bool) \<Rightarrow> bool \<Rightarrow> 'a item_scheme list \<Rightarrow> 'a item_scheme list" where
  "markChildren isChild firstIsCurrent [] = []"
| "markChildren isChild firstIsCurrent (x # xs) =
     (if isChild x
      then (if firstIsCurrent then x\<lparr>active := True, current := True\<rparr> else x\<lparr>active := True\<rparr>)
             # markChildren isChild False xs
      else x # markChildren isChild firstIsCurrent xs)"

text \<open>
  Modelled from the spec: \<^verbatim>\<open>setActiveByParent(parentId, parentType, {firstIsCurrent})\<close>
  of the level registry, "marks every child item whose parentHierarchy resolves to
  parentId as active; if firstIsCurrent, the first such child (by index) is also marked
  current". \<open>parents\<close> is the content of the registry of the parent's level, which the
  manager reaches through the form.
\<close>

definition setActiveByParent ::
  "item list \<Rightarrow> string \<Rightarrow> level \<Rightarrow> bool \<Rightarrow> 'a item_scheme registry \<Rightarrow> 'a item_scheme registry" where
  "setActiveByParent parents parentId parentType firstIsCurrent r =
     r\<lparr>items := markChildren (resolvesTo parents parentId parentType) firstIsCurrent (items r)\<rparr>"

text \<open>
  Modelled from the spec: \<^verbatim>\<open>getActive()\<close> of the level registry, "returns the active
  run, document order".
\<close>

definition getActive :: "'a item_scheme registry \<Rightarrow> 'a item_scheme list" where
  "getActive r = filter active (items r)"

text \<open>
  Modelled from the spec: \<^verbatim>\<open>getByFilter\<close>, which section 6 lists among the operations
  the registries expose; the items that satisfy the predicate, in order.
\<close>

definition getByFilter :: "('a \<Rightarrow> bool) \<Rightarrow> 'a registry \<Rightarrow> 'a list" where
  "getByFilter P r = filter P (items r)"

text \<open>
  Modelled from the spec: \<^verbatim>\<open>rebuildAll()\<close> of the level registry, "recompute any
  derived per-item fields (e.g., visibility) without committing to shared state";
  "\<^verbatim>\<open>rebuildAll\<close> only concerns local consistency, not cross-registry writes". The
  derived fields are not part of the model; the rebuild is counted.
\<close>

definition rebuildAll :: "'a registry \<Rightarrow> 'a registry" where
  "rebuildAll r = r\<lparr>rebuilds := Suc (rebuilds r)\<rparr>"

text \<open>
  Modelled from the spec: the patch of one level, "returning a patch object". It holds
  what \<^verbatim>\<open>getRelevantState\<close> of the ButtonManager reads back for a level
  (\<^verbatim>\<open>currentFieldIndex\<close> and \<^verbatim>\<open>totalFields\<close>, and so on): the current index and the
  total.
\<close>

record levelState =
  currentIndex :: "nat option"
  total :: nat

text \<open>
  Modelled from the spec: \<^verbatim>\<open>calculateStates()\<close> of the level registry, which returns
  the patch and writes nothing.
\<close>

definition calculateStates :: "'a item_scheme registry \<Rightarrow> levelState" where
  "calculateStates r =
     \<lparr>currentIndex = findIndex current (items r), total = length (items r)\<rparr>"

section \<open>The form\<close>

text \<open>
  The events of the source: \<^verbatim>\<open>form:navigation:request\<close> with its type,
  \<^verbatim>\<open>form:navigation:denied\<close> with its reason, \<^verbatim>\<open>form:submit:requested\<close> and
  \<^verbatim>\<open>form:submit:started\<close>.
\<close>

datatype event =
  NavigationRequest direction
  | NavigationDenied string
  | SubmitRequested
  | SubmitStarted

text \<open>
  The state the managers share: the flag of the NavigationManager, the configured
  behavior (\<^verbatim>\<open>getBehavior()\<close>), the five registries, the store of the ButtonManager, the
  patches committed with \<^verbatim>\<open>setStates\<close> (oldest first) and the events emitted (oldest
  first). Logging has no effect on it.
\<close>

record form =
  navigationEnabled :: bool
  behavior :: string
  inputManager :: "inputItem registry"
  fieldManager :: "item registry"
  groupManager :: "item registry"
  setManager :: "item registry"
  cardManager :: "item registry"
  buttonManager :: "buttonItem list"
  states :: "(level \<times> levelState) list list"
  emitted :: "event list"

text \<open>
  Modelled from the spec: \<^verbatim>\<open>form.emit\<close>, which is defined with the form; the event is
  recorded. What its subscribers do is added where the event is emitted.
\<close>

definition emit :: "event \<Rightarrow> form \<Rightarrow> form" where
  "emit e s = s\<lparr>emitted := emitted s @ [e]\<rparr>"

text \<open>
  Modelled from the spec: \<^verbatim>\<open>form.setStates\<close>, which is defined with the form; the
  merged patches are applied "as one atomic state update", recorded here as one commit.
\<close>

definition setStates :: "(level \<times> levelState) list \<Rightarrow> form \<Rightarrow> form" where
  "setStates allStates s = s\<lparr>states := states s @ [allStates]\<rparr>"

text \<open>
  A call either returns a value in a new state or throws in the state it has reached.
  \<open>andThen\<close> is the sequence of two statements: the second runs in the state the first
  returns in, and is skipped when the first throws.
\<close>

datatype 'a outcome = Done 'a form | Thrown error form

fun andThen :: "'a outcome \<Rightarrow> (form \<Rightarrow> 'b outcome) \<Rightarrow> 'b outcome" where
  "andThen (Done _ s) f = f s"
| "andThen (Thrown e s) f = Thrown e s"

fun discard :: "'a outcome \<Rightarrow> unit outcome" where
  "discard (Done _ s) = Done () s"
| "discard (Thrown e s) = Thrown e s"

fun stateOf :: "'a outcome \<Rightarrow> form" where
  "stateOf (Done _ s) = s"
| "stateOf (Thrown e s) = s"

text \<open>
  A call \<^verbatim>\<open>this.form.groupManager.setActive(...)\<close> and its like: the operation runs on
  the registry of the manager, and its failure is thrown.
\<close>

definition onGroupManager :: "(item registry \<Rightarrow> error + item registry) \<Rightarrow> form \<Rightarrow> unit outcome" where
  "onGroupManager f s =
     (case f (groupManager s) of Inl e \<Rightarrow> Thrown e s | Inr r \<Rightarrow> Done () (s\<lparr>groupManager := r\<rparr>))"

definition onSetManager :: "(item registry \<Rightarrow> error + item registry) \<Rightarrow> form \<Rightarrow> unit outcome" where
  "onSetManager f s =
     (case f (setManager s) of Inl e \<Rightarrow> Thrown e s | Inr r \<Rightarrow> Done () (s\<lparr>setManager := r\<rparr>))"

definition onCardManager :: "(item registry \<Rightarrow> error + item registry) \<Rightarrow> form \<Rightarrow> unit outcome" where
  "onCardManager f s =
     (case f (cardManager s) of Inl e \<Rightarrow> Thrown e s | Inr r \<Rightarrow> Done () (s\<lparr>cardManager := r\<rparr>))"

text \<open>
  The items of the registry of a level, where \<^verbatim>\<open>setActiveByParent\<close> looks the parent up.
\<close>

definition managerItems :: "level \<Rightarrow> form \<Rightarrow> item list" where
  "managerItems t s =
     (case t of
        LCard \<Rightarrow> items (cardManager s)
      | LSet \<Rightarrow> items (setManager s)
      | LGroup \<Rightarrow> items (groupManager s)
      | LField \<Rightarrow> items (fieldManager s)
      | LInput \<Rightarrow> [])"

section \<open>The ButtonManager\<close>

text \<open>
  \<^verbatim>\<open>ItemStore.filter\<close> is the array filter over the stored items, in insertion order.
  \<^verbatim>\<open>ButtonManager.getActive\<close> keeps the buttons that are active and visible.
\<close>

definition ButtonManager_getActive :: "buttonItem list \<Rightarrow> buttonItem list" where
  "ButtonManager_getActive store = filter (\<lambda>button. active button \<and> visible button) store"

text \<open>
  \<^verbatim>\<open>determineNextOrSubmit\<close>: \<^verbatim>\<open>Array.find\<close> gives the first match or undefined, and
  the \<^verbatim>\<open>if\<close> tests only whether one was found.
\<close>

definition determineNextOrSubmit :: "buttonItem list \<Rightarrow> direction" where
  "determineNextOrSubmit store =
     (let act = ButtonManager_getActive store in
      case find (\<lambda>button. type button = Next) act of
        Some _ \<Rightarrow> Next
      | None \<Rightarrow>
          (case find (\<lambda>button. type button = Submit) act of
             Some _ \<Rightarrow> Submit
           | None \<Rightarrow> Next))"

section \<open>The NavigationManager\<close>

text \<open>\<^verbatim>\<open>validateCurrent\<close>: every input that is active and included is valid.\<close>

definition validateCurrent :: "form \<Rightarrow> bool" where
  "validateCurrent s =
     (let inputsToValidate = getByFilter (\<lambda>input. active input \<and> isIncluded input) (inputManager s)
      in list_all isValid inputsToValidate)"

text \<open>
  \<^verbatim>\<open>clearHierarchyData\<close>: the element type and every level below it are cleared, the
  fields always.
\<close>

definition clearHierarchyData :: "level \<Rightarrow> form \<Rightarrow> form" where
  "clearHierarchyData elementType s =
     (let s1 = (if elementType = LCard
                then s\<lparr>cardManager := clearActiveAndCurrent (cardManager s)\<rparr> else s);
          s2 = (if elementType = LCard \<or> elementType = LSet
                then s1\<lparr>setManager := clearActiveAndCurrent (setManager s1)\<rparr> else s1);
          s3 = (if elementType = LCard \<or> elementType = LSet \<or> elementType = LGroup
                then s2\<lparr>groupManager := clearActiveAndCurrent (groupManager s2)\<rparr> else s2)
      in s3\<lparr>fieldManager := clearActiveAndCurrent (fieldManager s3)\<rparr>)"

text \<open>
  The body of the \<^verbatim>\<open>forEach\<close> in \<^verbatim>\<open>setChildrenActive\<close>: the inputs of each active
  field are set active, \<^verbatim>\<open>firstIsCurrent\<close> being \<^verbatim>\<open>index === 0\<close>, the position of the
  field among the active fields.
\<close>

fun forEachActiveField :: "item list \<Rightarrow> nat \<Rightarrow> item list \<Rightarrow> inputItem registry \<Rightarrow> inputItem registry" where
  "forEachActiveField allFields idx [] r = r"
| "forEachActiveField allFields idx (field # rest) r =
     forEachActiveField allFields (Suc idx) rest
       (setActiveByParent allFields (id' field) LField (idx = 0) r)"

definition setChildrenActive :: "item \<Rightarrow> form \<Rightarrow> form" where
  "setChildrenActive element s =
     (let s1 = (if type element = LCard
                then s\<lparr>setManager := setActiveByParent (managerItems (type element) s)
                                         (id' element) (type element) True (setManager s)\<rparr>
                else s);
          s2 = (if type element = LCard \<or> type element = LSet
                then s1\<lparr>groupManager := setActiveByParent (managerItems (type element) s1)
                                            (id' element) (type element) True (groupManager s1)\<rparr>
                else s1);
          s3 = (if type element = LCard \<or> type element = LSet \<or> type element = LGroup
                then s2\<lparr>fieldManager := setActiveByParent (managerItems (type element) s2)
                                            (id' element) (type element) True (fieldManager s2)\<rparr>
                else s2);
          s4 = s3\<lparr>inputManager := clearActiveAndCurrent (inputManager s3)\<rparr>;
          activeFields = getActive (fieldManager s4)
      in s4\<lparr>inputManager :=
               forEachActiveField (managerItems LField s4) 0 activeFields (inputManager s4)\<rparr>)"

text \<open>
  \<^verbatim>\<open>updateHierarchyData\<close>, one definition for each of its three blocks: the group (only
  for a field), the set (for a field or a group), the card (always).
\<close>

definition updateGroup :: "item \<Rightarrow> form \<Rightarrow> unit outcome" where
  "updateGroup element s =
     (if type element = LField then
        (case groupIndex (parentHierarchy element) of
           None \<Rightarrow> Done () s
         | Some gi \<Rightarrow>
             if 0 \<le> gi then
               andThen (Done () (s\<lparr>groupManager := clearActiveAndCurrent (groupManager s)\<rparr>)) (\<lambda>s.
               andThen (onGroupManager (setActive (Index gi)) s) (\<lambda>s.
               onGroupManager (setCurrent (Index gi)) s))
             else Done () s)
      else Done () s)"

definition updateSet :: "item \<Rightarrow> form \<Rightarrow> unit outcome" where
  "updateSet element s =
     (if type element = LField \<or> type element = LGroup then
        (case setIndex (parentHierarchy element) of
           None \<Rightarrow> Done () s
         | Some si \<Rightarrow>
             if 0 \<le> si then
               andThen (Done () (s\<lparr>setManager := clearActiveAndCurrent (setManager s)\<rparr>)) (\<lambda>s.
               andThen (onSetManager (setActive (Index si)) s) (\<lambda>s.
               onSetManager (setCurrent (Index si)) s))
             else Done () s)
      else Done () s)"

definition updateCard :: "item \<Rightarrow> form \<Rightarrow> unit outcome" where
  "updateCard element s =
     (case cardIndex (parentHierarchy element) of
        None \<Rightarrow> Done () s
      | Some ci \<Rightarrow>
          if 0 \<le> ci then
            andThen (Done () (s\<lparr>cardManager := clearActiveAndCurrent (cardManager s)\<rparr>)) (\<lambda>s.
            andThen (onCardManager (setActive (Index ci)) s) (\<lambda>s.
            onCardManager (setCurrent (Index ci)) s))
          else Done () s)"

definition updateHierarchyData :: "item \<Rightarrow> form \<Rightarrow> unit outcome" where
  "updateHierarchyData element s =
     andThen (updateGroup element s) (\<lambda>s.
     andThen (updateSet element s) (\<lambda>s.
     updateCard element s))"

text \<open>
  \<^verbatim>\<open>batchStateUpdates\<close>: every registry is rebuilt, then the patches of the five
  registries are merged and committed with one \<^verbatim>\<open>setStates\<close>.
\<close>

definition batchStateUpdates :: "form \<Rightarrow> form" where
  "batchStateUpdates s =
     (let s1 = s\<lparr>inputManager := rebuildAll (inputManager s)\<rparr>;
          s2 = s1\<lparr>fieldManager := rebuildAll (fieldManager s1)\<rparr>;
          s3 = s2\<lparr>groupManager := rebuildAll (groupManager s2)\<rparr>;
          s4 = s3\<lparr>setManager := rebuildAll (setManager s3)\<rparr>;
          s5 = s4\<lparr>cardManager := rebuildAll (cardManager s4)\<rparr>;
          allStates =
            [(LInput, calculateStates (inputManager s5)),
             (LField, calculateStates (fieldManager s5)),
             (LGroup, calculateStates (groupManager s5)),
             (LSet, calculateStates (setManager s5)),
             (LCard, calculateStates (cardManager s5))]
      in setStates allStates s5)"

text \<open>
  The four resolvers. Each returns the level it resolved at, or \<open>None\<close> for
  \<^verbatim>\<open>undefined\<close>.
\<close>

definition byCard :: "direction \<Rightarrow> form \<Rightarrow> level option outcome" where
  "byCard direction s =
     (let targetPosition =
            (if direction = Prev then getPrevPosition (cardManager s)
             else getNextPosition (cardManager s))
      in case targetPosition of
           None \<Rightarrow> Done None s
         | Some p \<Rightarrow>
             (case getByIndex p (cardManager s) of
                None \<Rightarrow>
                  Thrown (FormError ''Cannot handle navigation: target card is null'' ''runtime''
                            (TargetCause p direction)) s
              | Some targetCard \<Rightarrow>
                  andThen (Done () (clearHierarchyData LCard s)) (\<lambda>s.
                  andThen (onCardManager (setActive (Id (id' targetCard))) s) (\<lambda>s.
                  andThen (onCardManager (setCurrent (Id (id' targetCard))) s) (\<lambda>s.
                  andThen (Done () (setChildrenActive targetCard s)) (\<lambda>s.
                  Done (Some LCard) (batchStateUpdates s)))))))"

definition bySet :: "direction \<Rightarrow> form \<Rightarrow> level option outcome" where
  "bySet direction s =
     (let targetPosition =
            (if direction = Prev then getPrevPosition (setManager s)
             else getNextPosition (setManager s))
      in case targetPosition of
           None \<Rightarrow> byCard direction s
         | Some p \<Rightarrow>
             (case getByIndex p (setManager s) of
                None \<Rightarrow>
                  Thrown (FormError ''Cannot handle navigation: target set is null'' ''runtime''
                            (TargetCause p direction)) s
              | Some targetSet \<Rightarrow>
                  andThen (Done () (clearHierarchyData LSet s)) (\<lambda>s.
                  andThen (onSetManager (setActive (Id (id' targetSet))) s) (\<lambda>s.
                  andThen (onSetManager (setCurrent (Id (id' targetSet))) s) (\<lambda>s.
                  andThen (Done () (setChildrenActive targetSet s)) (\<lambda>s.
                  andThen (updateHierarchyData targetSet s) (\<lambda>s.
                  Done (Some LSet) (batchStateUpdates s))))))))"

definition byGroup :: "direction \<Rightarrow> form \<Rightarrow> level option outcome" where
  "byGroup direction s =
     (let targetPosition =
            (if direction = Prev then getPrevPosition (groupManager s)
             else getNextPosition (groupManager s))
      in case targetPosition of
           None \<Rightarrow> bySet direction s
         | Some p \<Rightarrow>
             (case getByIndex p (groupManager s) of
                None \<Rightarrow>
                  Thrown (FormError ''Cannot handle navigation: target group is null'' ''runtime''
                            (TargetCause p direction)) s
              | Some targetGroup \<Rightarrow>
                  andThen (Done () (clearHierarchyData LGroup s)) (\<lambda>s.
                  andThen (onGroupManager (setActive (Id (id' targetGroup))) s) (\<lambda>s.
                  andThen (onGroupManager (setCurrent (Id (id' targetGroup))) s) (\<lambda>s.
                  andThen (Done () (setChildrenActive targetGroup s)) (\<lambda>s.
                  andThen (updateHierarchyData targetGroup s) (\<lambda>s.
                  Done (Some LGroup) (batchStateUpdates s))))))))"

definition byField :: "direction \<Rightarrow> form \<Rightarrow> level option outcome" where
  "byField direction s =
     (let targetPosition =
            (if direction = Prev then getPrevPosition (fieldManager s)
             else getNextPosition (fieldManager s))
      in case targetPosition of
           None \<Rightarrow> byGroup direction s
         | Some p \<Rightarrow>
             (case getByIndex p (fieldManager s) of
                None \<Rightarrow>
                  Thrown (FormError ''Cannot handle navigation: target field is null'' ''runtime''
                            (TargetCause p direction)) s
              | Some targetField \<Rightarrow>
                  andThen (Done () (clearHierarchyData LField s)) (\<lambda>s.
                  andThen (Done () (setChildrenActive targetField s)) (\<lambda>s.
                  andThen (updateHierarchyData targetField s) (\<lambda>s.
                  Done (Some LField) (batchStateUpdates s))))))"

text \<open>
  \<^verbatim>\<open>handleMove\<close>. \<open>canMove\<close> is the disjunction of the source; the destination
  string is only logged.
\<close>

definition canMove :: "direction \<Rightarrow> form \<Rightarrow> bool" where
  "canMove direction s =
     ((direction = Next \<and> validateCurrent s) \<or>
      (direction = Submit \<and> validateCurrent s) \<or>
      direction = Prev)"

definition handleMove :: "direction \<Rightarrow> form \<Rightarrow> unit outcome" where
  "handleMove direction s =
     (if \<not> navigationEnabled s then Done () s
      else if \<not> canMove direction s then Done () (emit (NavigationDenied ''invalid'') s)
      else if direction = Submit then discard (byCard Next s)
      else if behavior s = ''byField'' then discard (byField direction s)
      else if behavior s = ''byGroup'' then discard (byGroup direction s)
      else if behavior s = ''bySet'' then discard (bySet direction s)
      else if behavior s = ''byCard'' then discard (byCard direction s)
      else Thrown (FormError ''Invalid behavior'' ''runtime'' (BehaviorCause (behavior s))) s)"

section \<open>The Enter key\<close>

text \<open>
  \<^verbatim>\<open>handleSubmit\<close> of the SubmitManager (\<^verbatim>\<open>submit-manager.ts\<close>): it logs and emits
  \<^verbatim>\<open>form:submit:started\<close>.
\<close>

definition handleSubmit :: "form \<Rightarrow> form" where
  "handleSubmit s = emit SubmitStarted s"

text \<open>
  Modelled from the spec: the delivery of the event bus (\<^verbatim>\<open>form.emit\<close>,
  \<^verbatim>\<open>form.subscribe\<close>), which is defined with the form. An event is recorded and handed to
  its subscriber within the emitting call ("all operations run to completion
  synchronously within one notification-handling turn"). The subscriber of a navigation
  request is the one \<^verbatim>\<open>setupEventListeners\<close> of the NavigationManager registers,
  \<^verbatim>\<open>handleMove(payload.type)\<close>.
\<close>

definition emitNavigationRequest :: "direction \<Rightarrow> form \<Rightarrow> unit outcome" where
  "emitNavigationRequest t s = handleMove t (emit (NavigationRequest t) s)"

text \<open>
  Modelled from the spec: the delivery of \<^verbatim>\<open>form:submit:requested\<close>, in the same way.
  Its subscriber is the one the SubmitManager registers, \<^verbatim>\<open>handleSubmit\<close>.
\<close>

definition emitSubmitRequested :: "form \<Rightarrow> unit outcome" where
  "emitSubmitRequested s = Done () (handleSubmit (emit SubmitRequested s))"

text \<open>
  What the handler reads of the key event and of the document: the key, the shift key,
  whether the form contains the focused element, whether that element is the body, and
  its tag name.
\<close>

record keyboardEvent =
  key :: string
  shiftKey :: bool

record focus =
  isWithinForm :: bool
  isBody :: bool
  tagName :: "string option"

text \<open>
  The handler \<^verbatim>\<open>setupEnterKeyListener\<close> installs. \<^verbatim>\<open>preventDefault\<close> acts on the
  browser only and is left out.
\<close>

definition enterKeyHandler :: "keyboardEvent \<Rightarrow> focus \<Rightarrow> form \<Rightarrow> unit outcome" where
  "enterKeyHandler ev f s =
     (if key ev \<noteq> ''Enter'' \<or> shiftKey ev then Done () s
      else if (\<not> isWithinForm f \<and> \<not> isBody f) \<or> tagName f = Some ''BUTTON'' then Done () s
      else
        (let nextOrSubmit = determineNextOrSubmit (buttonManager s)
         in if nextOrSubmit = Next then emitNavigationRequest Next s
            else emitSubmitRequested s))"

section \<open>Notions the properties are stated with\<close>

text \<open>
  The position a resolver asks its registry for: the previous one for \<^verbatim>\<open>'prev'\<close>, the
  next one otherwise.
\<close>

definition targetPosition :: "direction \<Rightarrow> 'a item_scheme registry \<Rightarrow> nat option" where
  "targetPosition direction r =
     (if direction = Prev then getPrevPosition r else getNextPosition r)"

fun isThrown :: "'a outcome \<Rightarrow> bool" where
  "isThrown (Done _ _) = False"
| "isThrown (Thrown _ _) = True"

fun mapState :: "(form \<Rightarrow> form) \<Rightarrow> 'a outcome \<Rightarrow> 'a outcome" where
  "mapState f (Done x s) = Done x (f s)"
| "mapState f (Thrown e s) = Thrown e (f s)"

text \<open>A sequence of navigation requests, handled one after the other.\<close>

fun moves :: "direction list \<Rightarrow> form \<Rightarrow> unit outcome" where
  "moves [] s = Done () s"
| "moves (d # ds) s = andThen (handleMove d s) (moves ds)"

text \<open>
  Exclusivity at one level: at most one item is current, and a current item is active.
\<close>

definition exclusive :: "'a item_scheme list \<Rightarrow> bool" where
  "exclusive its =
     (length (filter current its) \<le> 1 \<and> (\<forall>i \<in> set its. current i \<longrightarrow> active i))"

definition exclusiveAll :: "form \<Rightarrow> bool" where
  "exclusiveAll s =
     (exclusive (items (cardManager s)) \<and> exclusive (items (setManager s)) \<and>
      exclusive (items (groupManager s)) \<and> exclusive (items (fieldManager s)) \<and>
      exclusive (items (inputManager s)))"

text \<open>
  What the TypeScript types give: the card registry holds \<^verbatim>\<open>CardItem\<close>s, whose
  \<^verbatim>\<open>type\<close> is \<^verbatim>\<open>'card'\<close>, and so on for the other registries.
\<close>

definition typed :: "form \<Rightarrow> bool" where
  "typed s =
     ((\<forall>i \<in> set (items (cardManager s)). type i = LCard) \<and>
      (\<forall>i \<in> set (items (setManager s)). type i = LSet) \<and>
      (\<forall>i \<in> set (items (groupManager s)). type i = LGroup) \<and>
      (\<forall>i \<in> set (items (fieldManager s)). type i = LField) \<and>
      (\<forall>i \<in> set (items (inputManager s)). type i = LInput))"

text \<open>An item without its two flags, and a form without the flags of its items.\<close>

definition eraseFlags :: "'a item_scheme \<Rightarrow> 'a item_scheme" where
  "eraseFlags x = x\<lparr>active := False, current := False\<rparr>"

definition skeleton ::
  "form \<Rightarrow> item list \<times> item list \<times> item list \<times> item list \<times> inputItem list" where
  "skeleton s =
     (map eraseFlags (items (cardManager s)), map eraseFlags (items (setManager s)),
      map eraseFlags (items (groupManager s)), map eraseFlags (items (fieldManager s)),
      map eraseFlags (items (inputManager s)))"

definition allClear :: "'a item_scheme list \<Rightarrow> bool" where
  "allClear its = (\<forall>i \<in> set its. \<not> active i \<and> \<not> current i)"

text \<open>The two flags of every item of a level, in order.\<close>

definition flags :: "'a item_scheme list \<Rightarrow> (bool \<times> bool) list" where
  "flags its = map (\<lambda>i. (active i, current i)) its"

text \<open>Exactly the item at position \<open>p\<close> is active and current.\<close>

definition onlyAt :: "nat \<Rightarrow> 'a item_scheme list \<Rightarrow> bool" where
  "onlyAt p its =
     (p < length its \<and>
      map (\<lambda>i. (active i, current i)) its =
        (replicate (length its) (False, False))[p := (True, True)])"

text \<open>
  The guard of \<^verbatim>\<open>updateHierarchyData\<close>: an ancestor index counts when it is not null and
  not negative. A level is synced to an index when, the index counting, exactly the item
  it names is active and current, and when, the index not counting, the level is as it
  was.
\<close>

definition ancestorAt :: "int option \<Rightarrow> nat option" where
  "ancestorAt idx =
     (case idx of None \<Rightarrow> None | Some i \<Rightarrow> if 0 \<le> i then Some (nat i) else None)"

definition syncedLevel :: "int option \<Rightarrow> item list \<Rightarrow> item list \<Rightarrow> bool" where
  "syncedLevel idx before after =
     (case ancestorAt idx of Some i \<Rightarrow> onlyAt i after | None \<Rightarrow> after = before)"

text \<open>
  The children of a parent are marked: the active items are the children, and the current
  item is the first child.
\<close>

definition childrenMarked :: "('a item_scheme \<Rightarrow> bool) \<Rightarrow> 'a item_scheme list \<Rightarrow> bool" where
  "childrenMarked isChild its =
     (map active its = map isChild its \<and>
      map current its = map (\<lambda>j. findIndex isChild its = Some j) [0..<length its])"

text \<open>
  The inputs mirror the fields: the active inputs are the inputs of the active fields,
  and the current input is the first input of the first active field.
\<close>

definition inputsFollowFields :: "item list \<Rightarrow> inputItem list \<Rightarrow> bool" where
  "inputsFollowFields fs ins =
     (let act = filter active fs in
      map active ins = map (\<lambda>i. list_ex (\<lambda>f. resolvesTo fs (id' f) LField i) act) ins \<and>
      map current ins =
        map (\<lambda>j. case act of [] \<Rightarrow> False
                  | f # _ \<Rightarrow> findIndex (resolvesTo fs (id' f) LField) ins = Some j)
          [0..<length ins])"

text \<open>
  The reading under which every active field has a current input: for each active field,
  its first active input, if it has one, is current.
\<close>

definition eachActiveFieldHasCurrentInput :: "item list \<Rightarrow> inputItem list \<Rightarrow> bool" where
  "eachActiveFieldHasCurrentInput fs ins =
     list_all
       (\<lambda>f. case findIndex (\<lambda>i. active i \<and> resolvesTo fs (id' f) LField i) ins of
               None \<Rightarrow> True
             | Some j \<Rightarrow> current (ins ! j))
       (filter active fs)"

text \<open>A form with the validity of its inputs forgotten: every input counts as valid.\<close>

definition eraseValidity :: "form \<Rightarrow> form" where
  "eraseValidity s =
     s\<lparr>inputManager :=
         (inputManager s)\<lparr>items := map (\<lambda>i. i\<lparr>isValid := True\<rparr>) (items (inputManager s))\<rparr>\<rparr>"

section \<open>Example forms\<close>

definition hierarchyItem ::
  "nat \<Rightarrow> string \<Rightarrow> level \<Rightarrow> bool \<Rightarrow> bool \<Rightarrow> int option \<Rightarrow> int option \<Rightarrow> int option \<Rightarrow> item" where
  "hierarchyItem i n t a c ci si gi =
     \<lparr>index = i, id' = n, active = a, type = t, current = c,
      parentHierarchy = \<lparr>cardIndex = ci, setIndex = si, groupIndex = gi, fieldIndex = None\<rparr>\<rparr>"

definition inputOfField :: "nat \<Rightarrow> string \<Rightarrow> bool \<Rightarrow> bool \<Rightarrow> int \<Rightarrow> bool \<Rightarrow> bool \<Rightarrow> inputItem" where
  "inputOfField i n a c fi inc v =
     \<lparr>index = i, id' = n, active = a, type = LInput, current = c,
      parentHierarchy =
        \<lparr>cardIndex = None, setIndex = None, groupIndex = None, fieldIndex = Some fi\<rparr>,
      isIncluded = inc, isValid = v\<rparr>"

text \<open>
  Two cards with one set and one group each; the first group has one field, the second
  two; every field has one input. The form stands on the first card, as a move by card
  leaves it: everything of the first card is active, the first item of each level is
  current.
\<close>

definition exampleForm :: form where
  "exampleForm =
     \<lparr>navigationEnabled = True, behavior = ''byCard'',
      inputManager =
        \<lparr>items = [inputOfField 0 ''i0'' True True 0 True True,
                  inputOfField 1 ''i1'' False False 1 True True,
                  inputOfField 2 ''i2'' False False 2 True True],
         rebuilds = 0\<rparr>,
      fieldManager =
        \<lparr>items = [hierarchyItem 0 ''f0'' LField True True (Some 0) (Some 0) (Some 0),
                  hierarchyItem 1 ''f1'' LField False False (Some 1) (Some 1) (Some 1),
                  hierarchyItem 2 ''f2'' LField False False (Some 1) (Some 1) (Some 1)],
         rebuilds = 0\<rparr>,
      groupManager =
        \<lparr>items = [hierarchyItem 0 ''g0'' LGroup True True (Some 0) (Some 0) None,
                  hierarchyItem 1 ''g1'' LGroup False False (Some 1) (Some 1) None],
         rebuilds = 0\<rparr>,
      setManager =
        \<lparr>items = [hierarchyItem 0 ''s0'' LSet True True (Some 0) None None,
                  hierarchyItem 1 ''s1'' LSet False False (Some 1) None None],
         rebuilds = 0\<rparr>,
      cardManager =
        \<lparr>items = [hierarchyItem 0 ''c0'' LCard True True None None None,
                  hierarchyItem 1 ''c1'' LCard False False None None None],
         rebuilds = 0\<rparr>,
      buttonManager =
        [\<lparr>index = 0, id' = ''prev-button-0'', active = True, type = Prev,
           disabled = False, visible = True\<rparr>,
         \<lparr>index = 1, id' = ''next-button-1'', active = True, type = Next,
           disabled = False, visible = True\<rparr>,
         \<lparr>index = 2, id' = ''submit-button-2'', active = False, type = Submit,
           disabled = True, visible = True\<rparr>],
      states = [], emitted = []\<rparr>"

text \<open>The same form with the input of the first field invalid.\<close>

definition invalidForm :: form where
  "invalidForm =
     exampleForm\<lparr>inputManager :=
       \<lparr>items = [inputOfField 0 ''i0'' True True 0 True False,
                 inputOfField 1 ''i1'' False False 1 True True,
                 inputOfField 2 ''i2'' False False 2 True True],
        rebuilds = 0\<rparr>\<rparr>"

text \<open>
  The same form stepping by field, stepping by group, and with a behavior that is none of
  the four.
\<close>

definition fieldModeForm :: form where
  "fieldModeForm = exampleForm\<lparr>behavior := ''byField''\<rparr>"

definition groupModeForm :: form where
  "groupModeForm = exampleForm\<lparr>behavior := ''byGroup''\<rparr>"

definition setModeForm :: form where
  "setModeForm = exampleForm\<lparr>behavior := ''bySet''\<rparr>"

definition unknownModeForm :: form where
  "unknownModeForm = exampleForm\<lparr>behavior := ''byPage''\<rparr>"

text \<open>
  Stepping by field, with the second field directly in the second set: it has no group.
\<close>

definition looseFieldForm :: form where
  "looseFieldForm =
     fieldModeForm\<lparr>fieldManager :=
       \<lparr>items = [hierarchyItem 0 ''f0'' LField True True (Some 0) (Some 0) (Some 0),
                 hierarchyItem 1 ''f1'' LField False False (Some 1) (Some 1) None,
                 hierarchyItem 2 ''f2'' LField False False (Some 1) (Some 1) (Some 1)],
        rebuilds = 0\<rparr>\<rparr>"

definition enterKey :: keyboardEvent where
  "enterKey = \<lparr>key = ''Enter'', shiftKey = False\<rparr>"

definition focusOnInput :: focus where
  "focusOnInput = \<lparr>isWithinForm = True, isBody = False, tagName = Some ''INPUT''\<rparr>"

section \<open>Helper lemmas\<close>

lemmas example_defs =
  exampleForm_def invalidForm_def fieldModeForm_def groupModeForm_def setModeForm_def
  unknownModeForm_def looseFieldForm_def
  hierarchyItem_def inputOfField_def enterKey_def focusOnInput_def

lemma find_None_conv: "(find P xs = None) = (\<forall>x \<in> set xs. \<not> P x)"
  by (induction xs) auto

lemma find_ButtonManager_getActive_None:
  "(find (\<lambda>b. type b = t) (ButtonManager_getActive store) = None) =
   (\<forall>b \<in> set store. \<not> (type b = t \<and> active b \<and> visible b))"
  by (auto simp: find_None_conv ButtonManager_getActive_def)

lemma determineNextOrSubmit_char:
  "determineNextOrSubmit store =
     (if \<exists>b \<in> set store. type b = Next \<and> active b \<and> visible b then Next
      else if \<exists>b \<in> set store. type b = Submit \<and> active b \<and> visible b then Submit
      else Next)"
proof -
  have n: "(find (\<lambda>b. type b = Next) (ButtonManager_getActive store) = None) =
           (\<not> (\<exists>b \<in> set store. type b = Next \<and> active b \<and> visible b))"
    by (simp add: find_ButtonManager_getActive_None)
  have s: "(find (\<lambda>b. type b = Submit) (ButtonManager_getActive store) = None) =
           (\<not> (\<exists>b \<in> set store. type b = Submit \<and> active b \<and> visible b))"
    by (simp add: find_ButtonManager_getActive_None)
  show ?thesis
  proof (cases "find (\<lambda>b. type b = Next) (ButtonManager_getActive store)")
    case (Some a)
    with n show ?thesis by (simp add: determineNextOrSubmit_def)
  next
    case None
    note nn = this
    show ?thesis
    proof (cases "find (\<lambda>b. type b = Submit) (ButtonManager_getActive store)")
      case None
      with nn n s show ?thesis by (simp add: determineNextOrSubmit_def)
    next
      case (Some a)
      with nn n s show ?thesis by (simp add: determineNextOrSubmit_def)
    qed
  qed
qed

lemma validateCurrent_iff:
  "validateCurrent s =
     (\<forall>input \<in> set (items (inputManager s)). active input \<and> isIncluded input \<longrightarrow> isValid input)"
  by (auto simp: validateCurrent_def getByFilter_def list_all_iff)

lemma stateOf_andThen_frame:
  assumes "\<And>s. proj (stateOf (g s)) = proj s"
  shows "proj (stateOf (andThen x g)) = proj (stateOf x)"
  using assms by (cases x) auto

lemma stateOf_discard [simp]: "stateOf (discard x) = stateOf x"
  by (cases x) auto

lemma stateOf_mapState [simp]: "stateOf (mapState f x) = f (stateOf x)"
  by (cases x) auto

lemma discard_mapState [simp]: "discard (mapState f x) = mapState f (discard x)"
  by (cases x) auto

lemma andThen_comm:
  assumes "x' = mapState f x" and "\<And>s. g (f s) = mapState f (g s)"
  shows "andThen x' g = mapState f (andThen x g)"
  using assms by (cases x) auto

subsection \<open>No resolver emits an event\<close>

lemma emitted_clearHierarchyData [simp]: "emitted (clearHierarchyData t s) = emitted s"
  by (simp add: clearHierarchyData_def Let_def)

lemma emitted_setChildrenActive [simp]: "emitted (setChildrenActive e s) = emitted s"
  by (simp add: setChildrenActive_def Let_def)

lemma emitted_batchStateUpdates [simp]: "emitted (batchStateUpdates s) = emitted s"
  by (simp add: batchStateUpdates_def Let_def setStates_def)

lemma emitted_onGroupManager [simp]: "emitted (stateOf (onGroupManager f s)) = emitted s"
  by (simp add: onGroupManager_def split: sum.splits)

lemma emitted_onSetManager [simp]: "emitted (stateOf (onSetManager f s)) = emitted s"
  by (simp add: onSetManager_def split: sum.splits)

lemma emitted_onCardManager [simp]: "emitted (stateOf (onCardManager f s)) = emitted s"
  by (simp add: onCardManager_def split: sum.splits)

lemma emitted_updateGroup [simp]: "emitted (stateOf (updateGroup e s)) = emitted s"
  by (simp add: updateGroup_def stateOf_andThen_frame [where proj = emitted] split: option.splits)

lemma emitted_updateSet [simp]: "emitted (stateOf (updateSet e s)) = emitted s"
  by (simp add: updateSet_def stateOf_andThen_frame [where proj = emitted] split: option.splits)

lemma emitted_updateCard [simp]: "emitted (stateOf (updateCard e s)) = emitted s"
  by (simp add: updateCard_def stateOf_andThen_frame [where proj = emitted] split: option.splits)

lemma emitted_updateHierarchyData [simp]:
  "emitted (stateOf (updateHierarchyData e s)) = emitted s"
  by (simp add: updateHierarchyData_def stateOf_andThen_frame [where proj = emitted])

lemma emitted_byCard [simp]: "emitted (stateOf (byCard d s)) = emitted s"
  by (simp add: byCard_def Let_def stateOf_andThen_frame [where proj = emitted]
      split: option.splits)

lemma emitted_bySet [simp]: "emitted (stateOf (bySet d s)) = emitted s"
  by (simp add: bySet_def Let_def stateOf_andThen_frame [where proj = emitted]
      split: option.splits)

lemma emitted_byGroup [simp]: "emitted (stateOf (byGroup d s)) = emitted s"
  by (simp add: byGroup_def Let_def stateOf_andThen_frame [where proj = emitted]
      split: option.splits)

lemma emitted_byField [simp]: "emitted (stateOf (byField d s)) = emitted s"
  by (simp add: byField_def Let_def stateOf_andThen_frame [where proj = emitted]
      split: option.splits)

subsection \<open>The card resolver neither reads nor writes the behavior\<close>

lemma clearHierarchyData_behavior:
  "clearHierarchyData t (s\<lparr>behavior := b\<rparr>) = (clearHierarchyData t s)\<lparr>behavior := b\<rparr>"
  by (simp add: clearHierarchyData_def Let_def)

lemma setChildrenActive_behavior:
  "setChildrenActive e (s\<lparr>behavior := b\<rparr>) = (setChildrenActive e s)\<lparr>behavior := b\<rparr>"
  by (simp add: setChildrenActive_def Let_def managerItems_def split: level.splits)

lemma batchStateUpdates_behavior:
  "batchStateUpdates (s\<lparr>behavior := b\<rparr>) = (batchStateUpdates s)\<lparr>behavior := b\<rparr>"
  by (simp add: batchStateUpdates_def Let_def setStates_def)

lemma onCardManager_behavior:
  "onCardManager f (s\<lparr>behavior := b\<rparr>) =
     mapState (behavior_update (\<lambda>_. b)) (onCardManager f s)"
  by (simp add: onCardManager_def split: sum.splits)

lemma byCard_behavior:
  "byCard d (s\<lparr>behavior := b\<rparr>) = mapState (behavior_update (\<lambda>_. b)) (byCard d s)"
proof -
  have cm: "cardManager (s\<lparr>behavior := b\<rparr>) = cardManager s" by simp
  show ?thesis
    unfolding byCard_def Let_def cm
    by (auto split: option.splits intro!: andThen_comm
        simp: clearHierarchyData_behavior setChildrenActive_behavior
          batchStateUpdates_behavior onCardManager_behavior)
qed

lemma behavior_onCardManager [simp]: "behavior (stateOf (onCardManager f s)) = behavior s"
  by (simp add: onCardManager_def split: sum.splits)

lemma behavior_byCard [simp]: "behavior (stateOf (byCard d s)) = behavior s"
  by (simp add: byCard_def Let_def stateOf_andThen_frame [where proj = behavior]
      clearHierarchyData_def setChildrenActive_def batchStateUpdates_def setStates_def
      split: option.splits)

subsection \<open>Lists\<close>

lemma findIndex_less: "findIndex P xs = Some p \<Longrightarrow> p < length xs"
  by (induction xs arbitrary: p) (auto split: if_splits)

lemma findIndex_holds: "findIndex P xs = Some p \<Longrightarrow> P (xs ! p)"
  by (induction xs arbitrary: p) (auto split: if_splits)

lemma findIndex_first: "findIndex P xs = Some p \<Longrightarrow> j < p \<Longrightarrow> \<not> P (xs ! j)"
proof (induction xs arbitrary: p j)
  case Nil then show ?case by simp
next
  case (Cons x xs)
  then show ?case by (cases j) (auto split: if_splits)
qed

lemma findIndex_None_iff: "(findIndex P xs = None) = (\<forall>x \<in> set xs. \<not> P x)"
  by (induction xs) auto

lemma findIndex_cong_map: "map P xs = map P ys \<Longrightarrow> findIndex P xs = findIndex P ys"
proof (induction xs arbitrary: ys)
  case Nil then show ?case by simp
next
  case (Cons x xs)
  then obtain y ys' where ys: "ys = y # ys'" by (cases ys) auto
  with Cons show ?case by auto
qed

lemma findIndex_distinct:
  "distinct (map f xs) \<Longrightarrow> p < length xs \<Longrightarrow> findIndex (\<lambda>i. f i = f (xs ! p)) xs = Some p"
proof (induction xs arbitrary: p)
  case Nil then show ?case by simp
next
  case (Cons x xs)
  show ?case
  proof (cases p)
    case 0 then show ?thesis by simp
  next
    case (Suc q)
    with Cons.prems have "q < length xs" "f (xs ! q) \<noteq> f x" "distinct (map f xs)"
      by (auto simp: image_iff) (metis nth_mem)
    with Cons.IH [of q] Suc show ?thesis by auto
  qed
qed

lemma length_filter_map_cong:
  "map P ys = map P xs \<Longrightarrow> length (filter P ys) = length (filter P xs)"
proof -
  assume "map P ys = map P xs"
  then have "length (filter id (map P ys)) = length (filter id (map P xs))" by simp
  then show ?thesis by (simp add: filter_map comp_def)
qed

lemma nth_map_cong: "map f ys = map f xs \<Longrightarrow> k < length xs \<Longrightarrow> f (ys ! k) = f (xs ! k)"
  by (metis map_eq_imp_length_eq nth_map)

subsection \<open>Items without their flags\<close>

lemma eraseFlags_simps [simp]:
  "eraseFlags (x\<lparr>active := a\<rparr>) = eraseFlags x"
  "eraseFlags (x\<lparr>current := c\<rparr>) = eraseFlags x"
  "id' (eraseFlags x) = id' x"
  "type (eraseFlags x) = type x"
  "parentHierarchy (eraseFlags x) = parentHierarchy x"
  by (simp_all add: eraseFlags_def)

lemma resolvesTo_eraseFlags [simp]: "resolvesTo ps pid pt (eraseFlags x) = resolvesTo ps pid pt x"
  by (simp add: resolvesTo_def)

lemma resolvesTo_parents_cong:
  "map eraseFlags ps' = map eraseFlags ps \<Longrightarrow> resolvesTo ps' pid pt = resolvesTo ps pid pt"
proof (rule ext)
  fix x :: "'a item_scheme"
  assume e: "map eraseFlags ps' = map eraseFlags ps"
  then have l: "length ps' = length ps" by (rule map_eq_imp_length_eq)
  have "id' (ps' ! n) = id' (ps ! n)" if "n < length ps" for n
  proof -
    from e l that have "eraseFlags (ps' ! n) = eraseFlags (ps ! n)"
      by (metis nth_map)
    then have "id' (eraseFlags (ps' ! n)) = id' (eraseFlags (ps ! n))" by simp
    then show ?thesis by simp
  qed
  with l show "resolvesTo ps' pid pt x = resolvesTo ps pid pt x"
    by (auto simp: resolvesTo_def split: option.splits)
qed

lemma map_via_eraseFlags:
  assumes "map eraseFlags ys = map eraseFlags xs" and "\<And>x. g (eraseFlags x) = g x"
  shows "map g ys = map g xs"
proof -
  have "map g ys = map (g \<circ> eraseFlags) ys" using assms(2) by (simp add: comp_def)
  also have "\<dots> = map g (map eraseFlags ys)" by simp
  also have "\<dots> = map g (map eraseFlags xs)" using assms(1) by simp
  also have "\<dots> = map g xs" using assms(2) by (simp add: comp_def)
  finally show ?thesis .
qed

subsection \<open>Marking the children of a parent\<close>

lemma length_markChildren [simp]: "length (markChildren P b xs) = length xs"
  by (induction xs arbitrary: b) auto

lemma eraseFlags_markChildren [simp]: "map eraseFlags (markChildren P b xs) = map eraseFlags xs"
  by (induction xs arbitrary: b) auto

lemma active_markChildren: "map active (markChildren P b xs) = map (\<lambda>x. active x \<or> P x) xs"
  by (induction xs arbitrary: b) auto

lemma current_markChildren_False [simp]: "map current (markChildren P False xs) = map current xs"
  by (induction xs) auto

lemma current_markChildren_True:
  "j < length xs \<Longrightarrow>
   current (markChildren P True xs ! j) = (current (xs ! j) \<or> findIndex P xs = Some j)"
proof (induction xs arbitrary: j)
  case Nil then show ?case by simp
next
  case (Cons x xs)
  show ?case
  proof (cases "P x")
    case True
    show ?thesis
    proof (cases j)
      case 0 with True show ?thesis by simp
    next
      case (Suc k)
      with Cons.prems have k: "k < length xs" by simp
      from k have "current (markChildren P False xs ! k) = current (xs ! k)"
        by (intro nth_map_cong) simp_all
      with True Suc show ?thesis by simp
    qed
  next
    case False
    show ?thesis
    proof (cases j)
      case 0 with False show ?thesis by simp
    next
      case (Suc k)
      with Cons.prems have k: "k < length xs" by simp
      from Cons.IH [OF k] False Suc show ?thesis by auto
    qed
  qed
qed

lemma current_implies_active_markChildren:
  "\<forall>x \<in> set xs. current x \<longrightarrow> active x \<Longrightarrow>
   \<forall>x \<in> set (markChildren P b xs). current x \<longrightarrow> active x"
  by (induction xs arbitrary: b) auto

lemma exclusive_markChildren_False:
  assumes "exclusive xs"
  shows "exclusive (markChildren P False xs)"
proof -
  have "length (filter current (markChildren P False xs)) = length (filter current xs)"
    by (rule length_filter_map_cong) simp
  moreover from assms have "\<forall>x \<in> set (markChildren P False xs). current x \<longrightarrow> active x"
    by (intro current_implies_active_markChildren) (simp add: exclusive_def)
  ultimately show ?thesis
    using assms by (simp add: exclusive_def)
qed

lemma filter_current_Nil: "(filter current xs = []) = (\<forall>x \<in> set xs. \<not> current x)"
  by (induction xs) auto

lemma one_current_markChildren_True:
  "\<forall>x \<in> set xs. \<not> current x \<Longrightarrow> length (filter current (markChildren P True xs)) \<le> 1"
proof (induction xs)
  case Nil then show ?case by simp
next
  case (Cons x xs)
  from Cons.prems have nc: "\<forall>x \<in> set xs. \<not> current x" by simp
  have "length (filter current (markChildren P False xs)) = length (filter current xs)"
    by (rule length_filter_map_cong) simp
  also from nc have "\<dots> = 0" by (simp add: filter_current_Nil)
  finally have z: "length (filter current (markChildren P False xs)) = 0" .
  from Cons nc z show ?case by auto
qed

lemma exclusive_markChildren_True:
  assumes "\<forall>x \<in> set xs. \<not> current x"
  shows "exclusive (markChildren P True xs)"
proof -
  from assms have "\<forall>x \<in> set xs. current x \<longrightarrow> active x" by simp
  then have "\<forall>x \<in> set (markChildren P True xs). current x \<longrightarrow> active x"
    by (rule current_implies_active_markChildren)
  with one_current_markChildren_True [OF assms] show ?thesis
    by (simp add: exclusive_def)
qed

subsection \<open>The operations of a registry\<close>

lemma allClear_clear [simp]: "allClear (items (clearActiveAndCurrent r))"
  by (simp add: allClear_def clearActiveAndCurrent_def)

lemma eraseFlags_clear [simp]:
  "map eraseFlags (items (clearActiveAndCurrent r)) = map eraseFlags (items r)"
  by (simp add: clearActiveAndCurrent_def eraseFlags_def)

lemma length_clear [simp]: "length (items (clearActiveAndCurrent r)) = length (items r)"
  by (simp add: clearActiveAndCurrent_def)

lemma allClear_exclusive: "allClear xs \<Longrightarrow> exclusive xs"
proof -
  assume a: "allClear xs"
  then have "filter current xs = []" by (simp add: filter_current_Nil allClear_def)
  with a show ?thesis by (simp add: exclusive_def allClear_def)
qed

lemma allClear_flags:
  "allClear xs \<Longrightarrow> map (\<lambda>i. (active i, current i)) xs = replicate (length xs) (False, False)"
  by (induction xs) (auto simp: allClear_def)

lemma resolve_less: "resolve sel xs = Some p \<Longrightarrow> p < length xs"
  by (cases sel) (auto dest: findIndex_less split: if_splits)

lemma resolve_cong:
  assumes "map eraseFlags ys = map eraseFlags xs"
  shows "resolve sel ys = resolve sel xs"
proof (cases sel)
  case (Id x)
  have "map (\<lambda>i. id' i = x) ys = map (\<lambda>i. id' i = x) xs"
    using assms by (rule map_via_eraseFlags) simp
  then have "findIndex (\<lambda>i. id' i = x) ys = findIndex (\<lambda>i. id' i = x) xs"
    by (rule findIndex_cong_map)
  then show ?thesis using Id by simp
next
  case (Index n)
  from assms have "length ys = length xs" by (rule map_eq_imp_length_eq)
  with Index show ?thesis by simp
qed

lemma eraseFlags_update_active [simp]:
  "p < length xs \<Longrightarrow> map eraseFlags (xs[p := (xs ! p)\<lparr>active := a\<rparr>]) = map eraseFlags xs"
  by (simp add: map_update list_update_same_conv)

lemma eraseFlags_update_current [simp]:
  "p < length xs \<Longrightarrow> map eraseFlags (xs[p := (xs ! p)\<lparr>current := a\<rparr>]) = map eraseFlags xs"
  by (simp add: map_update list_update_same_conv)

lemma setActive_Inr:
  "setActive sel r = Inr r' \<Longrightarrow>
   \<exists>p. resolve sel (items r) = Some p \<and> r' = r\<lparr>items := (items r)[p := (items r ! p)\<lparr>active := True\<rparr>]\<rparr>"
  by (auto simp: setActive_def split: option.splits)

lemma setCurrent_Inr:
  "setCurrent sel r = Inr r' \<Longrightarrow>
   \<exists>p. resolve sel (items r) = Some p \<and> r' = r\<lparr>items := (items r)[p := (items r ! p)\<lparr>current := True\<rparr>]\<rparr>"
  by (auto simp: setCurrent_def split: option.splits)

lemma setActive_setCurrent:
  assumes "setActive sel r = Inr r1" and "setCurrent sel r1 = Inr r2"
  shows "\<exists>p. resolve sel (items r) = Some p \<and> p < length (items r) \<and>
             r2 = r\<lparr>items := (items r)[p := (items r ! p)\<lparr>active := True, current := True\<rparr>]\<rparr>"
proof -
  from setActive_Inr [OF assms(1)] obtain p where
    p: "resolve sel (items r) = Some p"
    and r1: "r1 = r\<lparr>items := (items r)[p := (items r ! p)\<lparr>active := True\<rparr>]\<rparr>" by blast
  from p have pl: "p < length (items r)" by (rule resolve_less)
  from r1 pl have "map eraseFlags (items r1) = map eraseFlags (items r)" by simp
  then have "resolve sel (items r1) = resolve sel (items r)" by (rule resolve_cong)
  with p have "resolve sel (items r1) = Some p" by simp
  with setCurrent_Inr [OF assms(2)]
  have "r2 = r1\<lparr>items := (items r1)[p := (items r1 ! p)\<lparr>current := True\<rparr>]\<rparr>" by auto
  with r1 pl have "r2 = r\<lparr>items := (items r)[p := (items r ! p)\<lparr>active := True, current := True\<rparr>]\<rparr>"
    by simp
  with p pl show ?thesis by blast
qed

lemma onlyAt_update:
  "allClear xs \<Longrightarrow> p < length xs \<Longrightarrow> onlyAt p (xs[p := (xs ! p)\<lparr>active := True, current := True\<rparr>])"
  by (simp add: onlyAt_def map_update allClear_flags)

lemma filter_snd_update:
  "p < n \<Longrightarrow> filter snd ((replicate n (False, False))[p := (True, True)]) = [(True, True)]"
  by (simp add: upd_conv_take_nth_drop)

lemma onlyAt_nth:
  assumes "onlyAt p xs" and "j < length xs"
  shows "active (xs ! j) = (j = p) \<and> current (xs ! j) = (j = p)"
proof -
  from assms have "map (\<lambda>i. (active i, current i)) xs ! j =
      (replicate (length xs) (False, False))[p := (True, True)] ! j"
    by (simp add: onlyAt_def)
  with assms(2) have "(active (xs ! j), current (xs ! j)) =
      (replicate (length xs) (False, False))[p := (True, True)] ! j"
    by simp
  also from assms(2) have "\<dots> = (if j = p then (True, True) else (False, False))"
    by (simp add: nth_list_update)
  finally show ?thesis by (simp split: if_splits)
qed

lemma onlyAt_exclusive:
  assumes "onlyAt p xs"
  shows "exclusive xs"
proof -
  let ?fl = "map (\<lambda>i. (active i, current i)) xs"
  from assms have p: "p < length xs"
    and fl: "?fl = (replicate (length xs) (False, False))[p := (True, True)]"
    by (simp_all add: onlyAt_def)
  have "length (filter current xs) = length (filter snd ?fl)"
    by (simp add: filter_map comp_def)
  also have "\<dots> = 1" using p by (simp only: fl filter_snd_update) simp
  finally have 1: "length (filter current xs) \<le> 1" by simp
  have 2: "current x \<longrightarrow> active x" if "x \<in> set xs" for x
  proof -
    from that obtain j where "j < length xs" and "xs ! j = x"
      by (auto simp: in_set_conv_nth)
    with onlyAt_nth [OF assms, of j] show ?thesis by auto
  qed
  from 1 2 show ?thesis by (simp add: exclusive_def)
qed

lemma eraseFlags_setActiveByParent [simp]:
  "map eraseFlags (items (setActiveByParent ps pid pt b r)) = map eraseFlags (items r)"
  by (simp add: setActiveByParent_def)

lemma exclusive_setActiveByParent_True:
  "allClear (items r) \<Longrightarrow> exclusive (items (setActiveByParent ps pid pt True r))"
  by (simp add: setActiveByParent_def exclusive_markChildren_True allClear_def)

lemma exclusive_setActiveByParent_False:
  "exclusive (items r) \<Longrightarrow> exclusive (items (setActiveByParent ps pid pt False r))"
  by (simp add: setActiveByParent_def exclusive_markChildren_False)

lemma eraseFlags_forEachActiveField [simp]:
  "map eraseFlags (items (forEachActiveField fs idx flds r)) = map eraseFlags (items r)"
  by (induction flds arbitrary: idx r) auto

lemma exclusive_forEachActiveField_pos:
  "0 < idx \<Longrightarrow> exclusive (items r) \<Longrightarrow> exclusive (items (forEachActiveField fs idx flds r))"
  by (induction flds arbitrary: idx r) (auto simp: exclusive_setActiveByParent_False)

lemma exclusive_forEachActiveField:
  assumes "allClear (items r)"
  shows "exclusive (items (forEachActiveField fs 0 flds r))"
proof (cases flds)
  case Nil
  with assms show ?thesis by (simp add: allClear_exclusive)
next
  case (Cons f rest)
  from assms have "exclusive (items (setActiveByParent fs (id' f) LField True r))"
    by (rule exclusive_setActiveByParent_True)
  then show ?thesis using Cons
    by (simp add: exclusive_forEachActiveField_pos)
qed

subsection \<open>Outcomes\<close>

lemma andThen_Done:
  "(andThen m g = Done x s') = (\<exists>y s1. m = Done y s1 \<and> g s1 = Done x s')"
  by (cases m) auto

lemma onGroupManager_Done:
  "(onGroupManager f s = Done x s') = (\<exists>r. f (groupManager s) = Inr r \<and> s' = s\<lparr>groupManager := r\<rparr>)"
  by (auto simp: onGroupManager_def split: sum.splits)

lemma onSetManager_Done:
  "(onSetManager f s = Done x s') = (\<exists>r. f (setManager s) = Inr r \<and> s' = s\<lparr>setManager := r\<rparr>)"
  by (auto simp: onSetManager_def split: sum.splits)

lemma onCardManager_Done:
  "(onCardManager f s = Done x s') = (\<exists>r. f (cardManager s) = Inr r \<and> s' = s\<lparr>cardManager := r\<rparr>)"
  by (auto simp: onCardManager_def split: sum.splits)

lemma eraseFlags_update_both:
  "p < length xs \<Longrightarrow>
   map eraseFlags (xs[p := (xs ! p)\<lparr>active := a, current := c\<rparr>]) = map eraseFlags xs"
  by (simp add: map_update list_update_same_conv)

lemma sync_block:
  assumes "setActive sel (clearActiveAndCurrent r) = Inr r1" and "setCurrent sel r1 = Inr r2"
  shows "\<exists>p. resolve sel (items r) = Some p \<and> onlyAt p (items r2) \<and>
             map eraseFlags (items r2) = map eraseFlags (items r) \<and> rebuilds r2 = rebuilds r"
proof -
  let ?c = "clearActiveAndCurrent r"
  from setActive_setCurrent [OF assms] obtain p where
    p: "resolve sel (items ?c) = Some p" and pl: "p < length (items ?c)"
    and r2: "r2 = ?c\<lparr>items := (items ?c)[p := (items ?c ! p)\<lparr>active := True, current := True\<rparr>]\<rparr>"
    by blast
  have "resolve sel (items ?c) = resolve sel (items r)"
    by (rule resolve_cong) simp
  with p have 1: "resolve sel (items r) = Some p" by simp
  from r2 pl have 2: "onlyAt p (items r2)"
    by (simp add: onlyAt_update)
  from r2 have "items r2 = (items ?c)[p := (items ?c ! p)\<lparr>active := True, current := True\<rparr>]"
    by simp
  with pl have "map eraseFlags (items r2) = map eraseFlags (items ?c)"
    by (simp only: eraseFlags_update_both)
  then have 3: "map eraseFlags (items r2) = map eraseFlags (items r)" by simp
  from r2 have 4: "rebuilds r2 = rebuilds r"
    by (simp add: clearActiveAndCurrent_def)
  from 1 2 3 4 show ?thesis by blast
qed

subsection \<open>The registries after a step\<close>

lemma clearHierarchyData_sel [simp]:
  "cardManager (clearHierarchyData t s) =
     (if t = LCard then clearActiveAndCurrent (cardManager s) else cardManager s)"
  "setManager (clearHierarchyData t s) =
     (if t = LCard \<or> t = LSet then clearActiveAndCurrent (setManager s) else setManager s)"
  "groupManager (clearHierarchyData t s) =
     (if t = LCard \<or> t = LSet \<or> t = LGroup then clearActiveAndCurrent (groupManager s)
      else groupManager s)"
  "fieldManager (clearHierarchyData t s) = clearActiveAndCurrent (fieldManager s)"
  "inputManager (clearHierarchyData t s) = inputManager s"
  by (simp_all add: clearHierarchyData_def Let_def)

lemma setChildrenActive_sel:
  "cardManager (setChildrenActive e s) = cardManager s"
  "setManager (setChildrenActive e s) =
     (if type e = LCard
      then setActiveByParent (managerItems (type e) s) (id' e) (type e) True (setManager s)
      else setManager s)"
  "groupManager (setChildrenActive e s) =
     (if type e = LCard \<or> type e = LSet
      then setActiveByParent (managerItems (type e) s) (id' e) (type e) True (groupManager s)
      else groupManager s)"
  "fieldManager (setChildrenActive e s) =
     (if type e = LCard \<or> type e = LSet \<or> type e = LGroup
      then setActiveByParent (managerItems (type e) s) (id' e) (type e) True (fieldManager s)
      else fieldManager s)"
  "inputManager (setChildrenActive e s) =
     forEachActiveField (items (fieldManager (setChildrenActive e s))) 0
       (getActive (fieldManager (setChildrenActive e s)))
       (clearActiveAndCurrent (inputManager s))"
  by (auto simp: setChildrenActive_def Let_def managerItems_def)

lemma batchStateUpdates_items [simp]:
  "items (cardManager (batchStateUpdates s)) = items (cardManager s)"
  "items (setManager (batchStateUpdates s)) = items (setManager s)"
  "items (groupManager (batchStateUpdates s)) = items (groupManager s)"
  "items (fieldManager (batchStateUpdates s)) = items (fieldManager s)"
  "items (inputManager (batchStateUpdates s)) = items (inputManager s)"
  by (simp_all add: batchStateUpdates_def Let_def setStates_def rebuildAll_def)

subsection \<open>Navigation changes only the flags\<close>

lemma eraseFlags_setActive:
  "setActive sel r = Inr r' \<Longrightarrow> map eraseFlags (items r') = map eraseFlags (items r)"
  by (auto dest!: setActive_Inr dest: resolve_less)

lemma eraseFlags_setCurrent:
  "setCurrent sel r = Inr r' \<Longrightarrow> map eraseFlags (items r') = map eraseFlags (items r)"
  by (auto dest!: setCurrent_Inr dest: resolve_less)

lemma skeleton_clearHierarchyData [simp]: "skeleton (clearHierarchyData t s) = skeleton s"
  by (simp add: skeleton_def)

lemma skeleton_setChildrenActive [simp]: "skeleton (setChildrenActive e s) = skeleton s"
  by (simp add: skeleton_def setChildrenActive_sel)

lemma skeleton_batchStateUpdates [simp]: "skeleton (batchStateUpdates s) = skeleton s"
  by (simp add: skeleton_def)

lemma skeleton_onGroupManager_setActive [simp]:
  "skeleton (stateOf (onGroupManager (setActive sel) s)) = skeleton s"
  by (auto simp: onGroupManager_def skeleton_def eraseFlags_setActive split: sum.splits)

lemma skeleton_onGroupManager_setCurrent [simp]:
  "skeleton (stateOf (onGroupManager (setCurrent sel) s)) = skeleton s"
  by (auto simp: onGroupManager_def skeleton_def eraseFlags_setCurrent split: sum.splits)

lemma skeleton_onSetManager_setActive [simp]:
  "skeleton (stateOf (onSetManager (setActive sel) s)) = skeleton s"
  by (auto simp: onSetManager_def skeleton_def eraseFlags_setActive split: sum.splits)

lemma skeleton_onSetManager_setCurrent [simp]:
  "skeleton (stateOf (onSetManager (setCurrent sel) s)) = skeleton s"
  by (auto simp: onSetManager_def skeleton_def eraseFlags_setCurrent split: sum.splits)

lemma skeleton_onCardManager_setActive [simp]:
  "skeleton (stateOf (onCardManager (setActive sel) s)) = skeleton s"
  by (auto simp: onCardManager_def skeleton_def eraseFlags_setActive split: sum.splits)

lemma skeleton_onCardManager_setCurrent [simp]:
  "skeleton (stateOf (onCardManager (setCurrent sel) s)) = skeleton s"
  by (auto simp: onCardManager_def skeleton_def eraseFlags_setCurrent split: sum.splits)

lemma skeleton_clear_group [simp]:
  "skeleton (s\<lparr>groupManager := clearActiveAndCurrent (groupManager s)\<rparr>) = skeleton s"
  "skeleton (s\<lparr>setManager := clearActiveAndCurrent (setManager s)\<rparr>) = skeleton s"
  "skeleton (s\<lparr>cardManager := clearActiveAndCurrent (cardManager s)\<rparr>) = skeleton s"
  by (simp_all add: skeleton_def)

lemma skeleton_updateGroup [simp]: "skeleton (stateOf (updateGroup e s)) = skeleton s"
  by (simp add: updateGroup_def stateOf_andThen_frame [where proj = skeleton] split: option.splits)

lemma skeleton_updateSet [simp]: "skeleton (stateOf (updateSet e s)) = skeleton s"
  by (simp add: updateSet_def stateOf_andThen_frame [where proj = skeleton] split: option.splits)

lemma skeleton_updateCard [simp]: "skeleton (stateOf (updateCard e s)) = skeleton s"
  by (simp add: updateCard_def stateOf_andThen_frame [where proj = skeleton] split: option.splits)

lemma skeleton_updateHierarchyData [simp]:
  "skeleton (stateOf (updateHierarchyData e s)) = skeleton s"
  by (simp add: updateHierarchyData_def stateOf_andThen_frame [where proj = skeleton])

lemma skeleton_byCard [simp]: "skeleton (stateOf (byCard d s)) = skeleton s"
  by (simp add: byCard_def Let_def stateOf_andThen_frame [where proj = skeleton]
      split: option.splits)

lemma skeleton_bySet [simp]: "skeleton (stateOf (bySet d s)) = skeleton s"
  by (simp add: bySet_def Let_def stateOf_andThen_frame [where proj = skeleton]
      split: option.splits)

lemma skeleton_byGroup [simp]: "skeleton (stateOf (byGroup d s)) = skeleton s"
  by (simp add: byGroup_def Let_def stateOf_andThen_frame [where proj = skeleton]
      split: option.splits)

lemma skeleton_byField [simp]: "skeleton (stateOf (byField d s)) = skeleton s"
  by (simp add: byField_def Let_def stateOf_andThen_frame [where proj = skeleton]
      split: option.splits)

lemma skeleton_handleMove [simp]: "skeleton (stateOf (handleMove d s)) = skeleton s"
  by (simp add: handleMove_def emit_def skeleton_def [of "s\<lparr>emitted := _\<rparr>"] skeleton_def [of s])

lemma ball_via_eraseFlags:
  assumes "map eraseFlags ys = map eraseFlags xs" and "\<And>x. g (eraseFlags x) = g x"
  shows "(\<forall>i \<in> set ys. g i = v) = (\<forall>i \<in> set xs. g i = v)"
proof -
  have "map g ys = map g xs" using assms by (rule map_via_eraseFlags)
  then have "set (map g ys) = set (map g xs)" by simp
  then show ?thesis by (auto simp: image_iff)
qed

lemma typed_skeleton:
  assumes "skeleton s' = skeleton s"
  shows "typed s' = typed s"
proof -
  from assms have
    c: "map eraseFlags (items (cardManager s')) = map eraseFlags (items (cardManager s))" and
    t: "map eraseFlags (items (setManager s')) = map eraseFlags (items (setManager s))" and
    g: "map eraseFlags (items (groupManager s')) = map eraseFlags (items (groupManager s))" and
    f: "map eraseFlags (items (fieldManager s')) = map eraseFlags (items (fieldManager s))" and
    i: "map eraseFlags (items (inputManager s')) = map eraseFlags (items (inputManager s))"
    by (simp_all add: skeleton_def)
  show ?thesis
    unfolding typed_def
    by (simp only: ball_via_eraseFlags [OF c, where g = type] ball_via_eraseFlags [OF t, where g = type]
        ball_via_eraseFlags [OF g, where g = type] ball_via_eraseFlags [OF f, where g = type]
        ball_via_eraseFlags [OF i, where g = type] eraseFlags_simps)
qed

subsection \<open>The upward sync\<close>

lemma syncedLevel_same: "ancestorAt idx = None \<Longrightarrow> syncedLevel idx xs xs"
  by (simp add: syncedLevel_def)

lemma sync_index:
  assumes "setActive (Index i) (clearActiveAndCurrent r) = Inr r1"
    and "setCurrent (Index i) r1 = Inr r2" and "0 \<le> i"
  shows "syncedLevel (Some i) (items r) (items r2) \<and> rebuilds r2 = rebuilds r"
proof -
  from sync_block [OF assms(1,2)] obtain p where
    p: "resolve (Index i) (items r) = Some p" and o: "onlyAt p (items r2)"
    and rb: "rebuilds r2 = rebuilds r" by blast
  from p have "p = nat i" by (simp split: if_splits)
  with o rb assms(3) show ?thesis by (simp add: syncedLevel_def ancestorAt_def)
qed

lemma updateGroup_Done:
  assumes "updateGroup e s = Done x s'"
  shows "\<exists>r. s' = s\<lparr>groupManager := r\<rparr> \<and> rebuilds r = rebuilds (groupManager s) \<and>
             (if type e = LField
              then syncedLevel (groupIndex (parentHierarchy e)) (items (groupManager s)) (items r)
              else r = groupManager s)"
proof (cases "type e = LField \<and> ancestorAt (groupIndex (parentHierarchy e)) \<noteq> None")
  case False
  with assms have "s' = s"
    by (auto simp: updateGroup_def ancestorAt_def split: option.splits if_splits)
  then have "s' = s\<lparr>groupManager := groupManager s\<rparr>" by simp
  moreover from False have "if type e = LField
      then syncedLevel (groupIndex (parentHierarchy e)) (items (groupManager s)) (items (groupManager s))
      else groupManager s = groupManager s"
    by (simp add: syncedLevel_same)
  ultimately show ?thesis by blast
next
  case True
  then obtain gi where gi: "groupIndex (parentHierarchy e) = Some gi" "0 \<le> gi" and t: "type e = LField"
    by (auto simp: ancestorAt_def split: option.splits if_splits)
  with assms obtain r1 r2 where
    "setActive (Index gi) (clearActiveAndCurrent (groupManager s)) = Inr r1"
    "setCurrent (Index gi) r1 = Inr r2" "s' = s\<lparr>groupManager := r2\<rparr>"
    by (auto simp: updateGroup_def andThen_Done onGroupManager_Done)
  with sync_index [of gi "groupManager s" r1 r2] gi t show ?thesis by auto
qed

lemma updateSet_Done:
  assumes "updateSet e s = Done x s'"
  shows "\<exists>r. s' = s\<lparr>setManager := r\<rparr> \<and> rebuilds r = rebuilds (setManager s) \<and>
             (if type e = LField \<or> type e = LGroup
              then syncedLevel (setIndex (parentHierarchy e)) (items (setManager s)) (items r)
              else r = setManager s)"
proof (cases "(type e = LField \<or> type e = LGroup) \<and> ancestorAt (setIndex (parentHierarchy e)) \<noteq> None")
  case False
  with assms have "s' = s"
    by (auto simp: updateSet_def ancestorAt_def split: option.splits if_splits)
  then have "s' = s\<lparr>setManager := setManager s\<rparr>" by simp
  moreover from False have "if type e = LField \<or> type e = LGroup
      then syncedLevel (setIndex (parentHierarchy e)) (items (setManager s)) (items (setManager s))
      else setManager s = setManager s"
    by (auto simp add: syncedLevel_same)
  ultimately show ?thesis by blast
next
  case True
  then obtain si where si: "setIndex (parentHierarchy e) = Some si" "0 \<le> si"
    and t: "type e = LField \<or> type e = LGroup"
    by (auto simp: ancestorAt_def split: option.splits if_splits)
  with assms obtain r1 r2 where
    "setActive (Index si) (clearActiveAndCurrent (setManager s)) = Inr r1"
    "setCurrent (Index si) r1 = Inr r2" "s' = s\<lparr>setManager := r2\<rparr>"
    by (auto simp: updateSet_def andThen_Done onSetManager_Done)
  with sync_index [of si "setManager s" r1 r2] si t show ?thesis by auto
qed

lemma updateCard_Done:
  assumes "updateCard e s = Done x s'"
  shows "\<exists>r. s' = s\<lparr>cardManager := r\<rparr> \<and> rebuilds r = rebuilds (cardManager s) \<and>
             syncedLevel (cardIndex (parentHierarchy e)) (items (cardManager s)) (items r)"
proof (cases "ancestorAt (cardIndex (parentHierarchy e)) \<noteq> None")
  case False
  with assms have "s' = s"
    by (auto simp: updateCard_def ancestorAt_def split: option.splits if_splits)
  then have "s' = s\<lparr>cardManager := cardManager s\<rparr>" by simp
  moreover from False have
    "syncedLevel (cardIndex (parentHierarchy e)) (items (cardManager s)) (items (cardManager s))"
    by (simp add: syncedLevel_same)
  ultimately show ?thesis by blast
next
  case True
  then obtain ci where ci: "cardIndex (parentHierarchy e) = Some ci" "0 \<le> ci"
    by (auto simp: ancestorAt_def split: option.splits if_splits)
  with assms obtain r1 r2 where
    "setActive (Index ci) (clearActiveAndCurrent (cardManager s)) = Inr r1"
    "setCurrent (Index ci) r1 = Inr r2" "s' = s\<lparr>cardManager := r2\<rparr>"
    by (auto simp: updateCard_def andThen_Done onCardManager_Done)
  with sync_index [of ci "cardManager s" r1 r2] ci show ?thesis by auto
qed

lemma updateHierarchyData_Done:
  assumes "updateHierarchyData e s = Done x s'"
  shows "\<exists>rg rs rc. s' = s\<lparr>groupManager := rg, setManager := rs, cardManager := rc\<rparr> \<and>
           (if type e = LField
            then syncedLevel (groupIndex (parentHierarchy e)) (items (groupManager s)) (items rg)
            else rg = groupManager s) \<and>
           (if type e = LField \<or> type e = LGroup
            then syncedLevel (setIndex (parentHierarchy e)) (items (setManager s)) (items rs)
            else rs = setManager s) \<and>
           syncedLevel (cardIndex (parentHierarchy e)) (items (cardManager s)) (items rc)"
proof -
  from assms obtain s1 s2 where 1: "updateGroup e s = Done () s1"
    and 2: "updateSet e s1 = Done () s2" and 3: "updateCard e s2 = Done x s'"
    by (auto simp: updateHierarchyData_def andThen_Done)
  from updateGroup_Done [OF 1] obtain rg where
    g: "s1 = s\<lparr>groupManager := rg\<rparr>"
       "if type e = LField
        then syncedLevel (groupIndex (parentHierarchy e)) (items (groupManager s)) (items rg)
        else rg = groupManager s" by blast
  from updateSet_Done [OF 2] obtain rs where
    t: "s2 = s1\<lparr>setManager := rs\<rparr>"
       "if type e = LField \<or> type e = LGroup
        then syncedLevel (setIndex (parentHierarchy e)) (items (setManager s1)) (items rs)
        else rs = setManager s1" by blast
  from updateCard_Done [OF 3] obtain rc where
    c: "s' = s2\<lparr>cardManager := rc\<rparr>"
       "syncedLevel (cardIndex (parentHierarchy e)) (items (cardManager s2)) (items rc)" by blast
  from g(1) have sm: "setManager s1 = setManager s" by simp
  from g(1) t(1) have cm: "cardManager s2 = cardManager s" by simp
  from g t c have "s' = s\<lparr>groupManager := rg, setManager := rs, cardManager := rc\<rparr>" by simp
  moreover note g(2) t(2) [unfolded sm] c(2) [unfolded cm]
  ultimately show ?thesis by blast
qed

lemma syncedLevel_exclusive:
  "syncedLevel idx xs ys \<Longrightarrow> exclusive xs \<Longrightarrow> exclusive ys"
  by (auto simp: syncedLevel_def onlyAt_exclusive split: option.splits)

lemma items_clear: "items (clearActiveAndCurrent r) = map eraseFlags (items r)"
  by (simp add: clearActiveAndCurrent_def eraseFlags_def)

lemma map_upt_eqI:
  assumes "\<And>j. j < length xs \<Longrightarrow> f (xs ! j) = g j"
  shows "map f xs = map g [0..<length xs]"
  using assms by (intro nth_equalityI) simp_all

lemma childrenMarked_markChildren:
  fixes xs :: "'a item_scheme list"
  assumes "allClear xs" and "\<And>x. P (eraseFlags x) = P x"
  shows "childrenMarked P (markChildren P True xs)"
proof -
  let ?ys = "markChildren P True xs"
  have e: "map eraseFlags ?ys = map eraseFlags xs" by simp
  have l: "length ?ys = length xs" by simp
  have P: "map P ?ys = map P xs"
    using e assms(2) by (rule map_via_eraseFlags)
  from assms(1) have "map (\<lambda>x. active x \<or> P x) xs = map P xs"
    by (simp add: allClear_def)
  then have a: "map active ?ys = map P ?ys"
    by (simp only: active_markChildren P)
  have fi: "findIndex P ?ys = findIndex P xs"
    using P by (rule findIndex_cong_map)
  have "current (?ys ! j) = (findIndex P ?ys = Some j)" if "j < length ?ys" for j
  proof -
    from that have j: "j < length xs" by simp
    then have "xs ! j \<in> set xs" by simp
    with assms(1) have "\<not> current (xs ! j)" by (simp add: allClear_def)
    with current_markChildren_True [OF j, of P] fi show ?thesis by simp
  qed
  then have c: "map current ?ys = map (\<lambda>j. findIndex P ?ys = Some j) [0..<length ?ys]"
    by (rule map_upt_eqI)
  from a c show ?thesis by (simp only: childrenMarked_def)
qed

lemma childrenMarked_setActiveByParent:
  "allClear (items r) \<Longrightarrow>
   childrenMarked (resolvesTo ps pid pt) (items (setActiveByParent ps pid pt True r))"
  by (simp add: setActiveByParent_def childrenMarked_markChildren)

lemma active_forEachActiveField:
  "j < length (items r) \<Longrightarrow>
   active (items (forEachActiveField fs idx flds r) ! j) =
     (active (items r ! j) \<or> (\<exists>f \<in> set flds. resolvesTo fs (id' f) LField (items r ! j)))"
proof (induction flds arbitrary: idx r)
  case Nil then show ?case by simp
next
  case (Cons f rest)
  let ?P = "resolvesTo fs (id' f) LField :: inputItem \<Rightarrow> bool"
  let ?r = "setActiveByParent fs (id' f) LField (idx = 0) r"
  have l: "length (items ?r) = length (items r)" by (simp add: setActiveByParent_def)
  have e: "map eraseFlags (items ?r) = map eraseFlags (items r)" by simp
  have a: "active (items ?r ! j) = (active (items r ! j) \<or> ?P (items r ! j))"
  proof -
    have "map active (items ?r) = map (\<lambda>x. active x \<or> ?P x) (items r)"
      by (simp add: setActiveByParent_def active_markChildren)
    then have "map active (items ?r) ! j = map (\<lambda>x. active x \<or> ?P x) (items r) ! j" by simp
    with Cons.prems l show ?thesis by simp
  qed
  have q: "resolvesTo fs (id' g) LField (items ?r ! j) = resolvesTo fs (id' g) LField (items r ! j)"
    for g :: item
  proof -
    have "map (resolvesTo fs (id' g) LField) (items ?r) = map (resolvesTo fs (id' g) LField) (items r)"
      using e by (rule map_via_eraseFlags) simp
    then show ?thesis using Cons.prems by (rule nth_map_cong)
  qed
  from Cons.prems l have "j < length (items ?r)" by simp
  from Cons.IH [OF this, of "Suc idx"] a q show ?case by auto
qed

lemma current_forEachActiveField_pos:
  "0 < idx \<Longrightarrow> map current (items (forEachActiveField fs idx flds r)) = map current (items r)"
  by (induction flds arbitrary: idx r) (auto simp: setActiveByParent_def)

lemma inputsFollowFields_forEachActiveField:
  assumes "allClear (items r)"
  shows "inputsFollowFields fs (items (forEachActiveField fs 0 (filter active fs) r))"
proof -
  let ?flds = "filter active fs"
  let ?res = "items (forEachActiveField fs 0 ?flds r)"
  have e: "map eraseFlags ?res = map eraseFlags (items r)" by simp
  then have l: "length ?res = length (items r)" by (rule map_eq_imp_length_eq)
  have q: "resolvesTo fs pid LField (?res ! j) = resolvesTo fs pid LField (items r ! j)"
    if "j < length (items r)" for pid j
  proof -
    have "map (resolvesTo fs pid LField) ?res = map (resolvesTo fs pid LField) (items r)"
      using e by (rule map_via_eraseFlags) simp
    then show ?thesis using that by (rule nth_map_cong)
  qed
  have a: "map active ?res = map (\<lambda>i. list_ex (\<lambda>f. resolvesTo fs (id' f) LField i) ?flds) ?res"
  proof (rule nth_equalityI)
    show "length (map active ?res) =
          length (map (\<lambda>i. list_ex (\<lambda>f. resolvesTo fs (id' f) LField i) ?flds) ?res)" by simp
  next
    fix j assume "j < length (map active ?res)"
    with l have j: "j < length (items r)" by simp
    then have "items r ! j \<in> set (items r)" by simp
    with assms have "\<not> active (items r ! j)" by (simp add: allClear_def)
    with active_forEachActiveField [OF j, of fs 0 ?flds] q [OF j] j l
    show "map active ?res ! j =
          map (\<lambda>i. list_ex (\<lambda>f. resolvesTo fs (id' f) LField i) ?flds) ?res ! j"
      by (simp add: list_ex_iff)
  qed
  have c: "map current ?res =
      map (\<lambda>j. case ?flds of [] \<Rightarrow> False
                | f # _ \<Rightarrow> findIndex (resolvesTo fs (id' f) LField) ?res = Some j)
        [0..<length ?res]"
  proof (cases ?flds)
    case Nil
    from assms have "map current (items r) = map (\<lambda>j. False) [0..<length (items r)]"
      by (intro map_upt_eqI) (simp add: allClear_def)
    with Nil show ?thesis by simp
  next
    case (Cons f rest)
    let ?P = "resolvesTo fs (id' f) LField :: inputItem \<Rightarrow> bool"
    let ?r1 = "setActiveByParent fs (id' f) LField True r"
    from Cons have res: "?res = items (forEachActiveField fs (Suc 0) rest ?r1)" by simp
    have "map current ?res = map current (items ?r1)"
      unfolding res by (rule current_forEachActiveField_pos) simp
    moreover have "childrenMarked ?P (items ?r1)"
      using assms by (rule childrenMarked_setActiveByParent)
    ultimately have 1: "map current ?res =
        map (\<lambda>j. findIndex ?P (items ?r1) = Some j) [0..<length (items ?r1)]"
      by (simp add: childrenMarked_def)
    have "map eraseFlags ?res = map eraseFlags (items ?r1)" by (simp add: e)
    then have "map ?P ?res = map ?P (items ?r1)"
      by (rule map_via_eraseFlags) simp
    then have 2: "findIndex ?P ?res = findIndex ?P (items ?r1)"
      by (rule findIndex_cong_map)
    have 3: "length (items ?r1) = length ?res" by (simp add: l setActiveByParent_def)
    from 1 2 3 Cons show ?thesis by simp
  qed
  from a c show ?thesis by (simp only: inputsFollowFields_def Let_def)
qed

lemma inputsFollowFields_setChildrenActive:
  "inputsFollowFields (items (fieldManager (setChildrenActive e s)))
     (items (inputManager (setChildrenActive e s)))"
  by (simp only: setChildrenActive_sel(5) getActive_def)
     (rule inputsFollowFields_forEachActiveField, simp)

lemma targetPosition_less: "targetPosition d r = Some p \<Longrightarrow> p < length (items r)"
  by (auto simp: targetPosition_def getPrevPosition_def getNextPosition_def
      split: if_splits option.splits dest!: findIndex_less)

lemma targetPosition_getByIndex:
  "targetPosition d r = Some p \<Longrightarrow> getByIndex p r = Some (items r ! p)"
  by (simp add: getByIndex_def targetPosition_less)

lemma getByIndex_mem: "getByIndex p r = Some c \<Longrightarrow> c \<in> set (items r)"
  by (auto simp: getByIndex_def split: if_splits)

lemma byCard_effect:
  assumes "typed s" and "byCard d s = Done x s'" and "targetPosition d (cardManager s) = Some p"
  shows "\<exists>c p'. getByIndex p (cardManager s) = Some c \<and> x = Some LCard \<and>
           resolve (Id (id' c)) (items (cardManager s)) = Some p' \<and>
           onlyAt p' (items (cardManager s')) \<and>
           childrenMarked (resolvesTo (items (cardManager s)) (id' c) LCard) (items (setManager s')) \<and>
           childrenMarked (resolvesTo (items (cardManager s)) (id' c) LCard) (items (groupManager s')) \<and>
           childrenMarked (resolvesTo (items (cardManager s)) (id' c) LCard) (items (fieldManager s')) \<and>
           inputsFollowFields (items (fieldManager s')) (items (inputManager s'))"
proof -
  let ?c = "items (cardManager s) ! p"
  let ?s0 = "clearHierarchyData LCard s"
  have gbi: "getByIndex p (cardManager s) = Some ?c"
    using assms(3) by (rule targetPosition_getByIndex)
  with assms(1) have ty: "type ?c = LCard"
    by (auto dest!: getByIndex_mem simp: typed_def)
  from assms(3) have tp: "(if d = Prev then getPrevPosition (cardManager s)
      else getNextPosition (cardManager s)) = Some p"
    by (simp add: targetPosition_def)
  from assms(2) obtain r1 r2 where
    r1: "setActive (Id (id' ?c)) (clearActiveAndCurrent (cardManager s)) = Inr r1" and
    r2: "setCurrent (Id (id' ?c)) r1 = Inr r2" and
    s': "s' = batchStateUpdates (setChildrenActive ?c (?s0\<lparr>cardManager := r2\<rparr>))" and
    x: "x = Some LCard"
    unfolding byCard_def Let_def tp
    by (auto simp: gbi andThen_Done onCardManager_Done)
  from sync_block [OF r1 r2] obtain p' where
    p': "resolve (Id (id' ?c)) (items (cardManager s)) = Some p'" and
    o: "onlyAt p' (items r2)" and
    e: "map eraseFlags (items r2) = map eraseFlags (items (cardManager s))" by blast
  let ?s2 = "?s0\<lparr>cardManager := r2\<rparr>"
  let ?P = "resolvesTo (items (cardManager s)) (id' ?c) LCard"
  have P: "resolvesTo (items r2) (id' ?c) LCard = (?P :: item \<Rightarrow> bool)"
    using e by (rule resolvesTo_parents_cong)
  have 1: "onlyAt p' (items (cardManager s'))"
    using o by (simp add: s' setChildrenActive_sel)
  have 2: "childrenMarked ?P (items (setManager s'))"
    by (simp add: s' setChildrenActive_sel ty managerItems_def P [symmetric]
        childrenMarked_setActiveByParent)
  have 3: "childrenMarked ?P (items (groupManager s'))"
    by (simp add: s' setChildrenActive_sel ty managerItems_def P [symmetric]
        childrenMarked_setActiveByParent)
  have 4: "childrenMarked ?P (items (fieldManager s'))"
    by (simp add: s' setChildrenActive_sel(1-4) ty managerItems_def P [symmetric]
        childrenMarked_setActiveByParent)
  have 5: "inputsFollowFields (items (fieldManager s')) (items (inputManager s'))"
    by (simp add: s' inputsFollowFields_setChildrenActive)
  from gbi x p' 1 2 3 4 5 show ?thesis by blast
qed

lemma bySet_effect:
  assumes "typed s" and "bySet d s = Done x s'" and "targetPosition d (setManager s) = Some p"
  shows "\<exists>t p'. getByIndex p (setManager s) = Some t \<and> x = Some LSet \<and>
           resolve (Id (id' t)) (items (setManager s)) = Some p' \<and>
           onlyAt p' (items (setManager s')) \<and>
           childrenMarked (resolvesTo (items (setManager s)) (id' t) LSet) (items (groupManager s')) \<and>
           childrenMarked (resolvesTo (items (setManager s)) (id' t) LSet) (items (fieldManager s')) \<and>
           inputsFollowFields (items (fieldManager s')) (items (inputManager s')) \<and>
           syncedLevel (cardIndex (parentHierarchy t)) (items (cardManager s)) (items (cardManager s'))"
proof -
  let ?t = "items (setManager s) ! p"
  let ?s0 = "clearHierarchyData LSet s"
  have gbi: "getByIndex p (setManager s) = Some ?t"
    using assms(3) by (rule targetPosition_getByIndex)
  with assms(1) have ty: "type ?t = LSet"
    by (auto dest!: getByIndex_mem simp: typed_def)
  from assms(3) have tp: "(if d = Prev then getPrevPosition (setManager s)
      else getNextPosition (setManager s)) = Some p"
    by (simp add: targetPosition_def)
  from assms(2) obtain r1 r2 s4 where
    r1: "setActive (Id (id' ?t)) (clearActiveAndCurrent (setManager s)) = Inr r1" and
    r2: "setCurrent (Id (id' ?t)) r1 = Inr r2" and
    u: "updateHierarchyData ?t (setChildrenActive ?t (?s0\<lparr>setManager := r2\<rparr>)) = Done () s4" and
    s': "s' = batchStateUpdates s4" and
    x: "x = Some LSet"
    unfolding bySet_def Let_def tp
    by (auto simp: gbi andThen_Done onSetManager_Done)
  from sync_block [OF r1 r2] obtain p' where
    p': "resolve (Id (id' ?t)) (items (setManager s)) = Some p'" and
    o: "onlyAt p' (items r2)" and
    e: "map eraseFlags (items r2) = map eraseFlags (items (setManager s))" by blast
  let ?s3 = "setChildrenActive ?t (?s0\<lparr>setManager := r2\<rparr>)"
  from updateHierarchyData_Done [OF u] ty obtain rc where
    s4: "s4 = ?s3\<lparr>groupManager := groupManager ?s3, setManager := setManager ?s3,
                 cardManager := rc\<rparr>" and
    sy: "syncedLevel (cardIndex (parentHierarchy ?t)) (items (cardManager ?s3)) (items rc)"
    by auto
  let ?P = "resolvesTo (items (setManager s)) (id' ?t) LSet"
  have P: "resolvesTo (items r2) (id' ?t) LSet = (?P :: item \<Rightarrow> bool)"
    using e by (rule resolvesTo_parents_cong)
  have 1: "onlyAt p' (items (setManager s'))"
    using o by (simp add: s' s4 setChildrenActive_sel ty)
  have 3: "childrenMarked ?P (items (groupManager s'))"
    by (simp add: s' s4 setChildrenActive_sel ty managerItems_def P [symmetric]
        childrenMarked_setActiveByParent)
  have 4: "childrenMarked ?P (items (fieldManager s'))"
    by (simp add: s' s4 setChildrenActive_sel(1-4) ty managerItems_def P [symmetric]
        childrenMarked_setActiveByParent)
  have 5: "inputsFollowFields (items (fieldManager s')) (items (inputManager s'))"
    by (simp add: s' s4 inputsFollowFields_setChildrenActive)
  have 6: "syncedLevel (cardIndex (parentHierarchy ?t)) (items (cardManager s)) (items (cardManager s'))"
    using sy by (simp add: s' s4 setChildrenActive_sel)
  from gbi x p' 1 3 4 5 6 show ?thesis by blast
qed

lemma byGroup_effect:
  assumes "typed s" and "byGroup d s = Done x s'" and "targetPosition d (groupManager s) = Some p"
  shows "\<exists>g p'. getByIndex p (groupManager s) = Some g \<and> x = Some LGroup \<and>
           resolve (Id (id' g)) (items (groupManager s)) = Some p' \<and>
           onlyAt p' (items (groupManager s')) \<and>
           childrenMarked (resolvesTo (items (groupManager s)) (id' g) LGroup) (items (fieldManager s')) \<and>
           inputsFollowFields (items (fieldManager s')) (items (inputManager s')) \<and>
           syncedLevel (setIndex (parentHierarchy g)) (items (setManager s)) (items (setManager s')) \<and>
           syncedLevel (cardIndex (parentHierarchy g)) (items (cardManager s)) (items (cardManager s'))"
proof -
  let ?g = "items (groupManager s) ! p"
  let ?s0 = "clearHierarchyData LGroup s"
  have gbi: "getByIndex p (groupManager s) = Some ?g"
    using assms(3) by (rule targetPosition_getByIndex)
  with assms(1) have ty: "type ?g = LGroup"
    by (auto dest!: getByIndex_mem simp: typed_def)
  from assms(3) have tp: "(if d = Prev then getPrevPosition (groupManager s)
      else getNextPosition (groupManager s)) = Some p"
    by (simp add: targetPosition_def)
  from assms(2) obtain r1 r2 s4 where
    r1: "setActive (Id (id' ?g)) (clearActiveAndCurrent (groupManager s)) = Inr r1" and
    r2: "setCurrent (Id (id' ?g)) r1 = Inr r2" and
    u: "updateHierarchyData ?g (setChildrenActive ?g (?s0\<lparr>groupManager := r2\<rparr>)) = Done () s4" and
    s': "s' = batchStateUpdates s4" and
    x: "x = Some LGroup"
    unfolding byGroup_def Let_def tp
    by (auto simp: gbi andThen_Done onGroupManager_Done)
  from sync_block [OF r1 r2] obtain p' where
    p': "resolve (Id (id' ?g)) (items (groupManager s)) = Some p'" and
    o: "onlyAt p' (items r2)" and
    e: "map eraseFlags (items r2) = map eraseFlags (items (groupManager s))" by blast
  let ?s3 = "setChildrenActive ?g (?s0\<lparr>groupManager := r2\<rparr>)"
  from updateHierarchyData_Done [OF u] ty obtain rs rc where
    s4: "s4 = ?s3\<lparr>groupManager := groupManager ?s3, setManager := rs, cardManager := rc\<rparr>" and
    sys: "syncedLevel (setIndex (parentHierarchy ?g)) (items (setManager ?s3)) (items rs)" and
    syc: "syncedLevel (cardIndex (parentHierarchy ?g)) (items (cardManager ?s3)) (items rc)"
    by auto
  let ?P = "resolvesTo (items (groupManager s)) (id' ?g) LGroup"
  have P: "resolvesTo (items r2) (id' ?g) LGroup = (?P :: item \<Rightarrow> bool)"
    using e by (rule resolvesTo_parents_cong)
  have 1: "onlyAt p' (items (groupManager s'))"
    using o by (simp add: s' s4 setChildrenActive_sel ty)
  have 4: "childrenMarked ?P (items (fieldManager s'))"
    by (simp add: s' s4 setChildrenActive_sel(1-4) ty managerItems_def P [symmetric]
        childrenMarked_setActiveByParent)
  have 5: "inputsFollowFields (items (fieldManager s')) (items (inputManager s'))"
    by (simp add: s' s4 inputsFollowFields_setChildrenActive)
  have 6: "syncedLevel (setIndex (parentHierarchy ?g)) (items (setManager s)) (items (setManager s'))"
    using sys by (simp add: s' s4 setChildrenActive_sel ty)
  have 7: "syncedLevel (cardIndex (parentHierarchy ?g)) (items (cardManager s)) (items (cardManager s'))"
    using syc by (simp add: s' s4 setChildrenActive_sel)
  from gbi x p' 1 4 5 6 7 show ?thesis by blast
qed

lemma byField_effect:
  assumes "typed s" and "byField d s = Done x s'" and "targetPosition d (fieldManager s) = Some p"
  shows "\<exists>f. getByIndex p (fieldManager s) = Some f \<and> x = Some LField \<and>
           allClear (items (fieldManager s')) \<and>
           inputsFollowFields (items (fieldManager s')) (items (inputManager s')) \<and>
           syncedLevel (groupIndex (parentHierarchy f)) (items (groupManager s)) (items (groupManager s')) \<and>
           syncedLevel (setIndex (parentHierarchy f)) (items (setManager s)) (items (setManager s')) \<and>
           syncedLevel (cardIndex (parentHierarchy f)) (items (cardManager s)) (items (cardManager s'))"
proof -
  let ?f = "items (fieldManager s) ! p"
  let ?s0 = "clearHierarchyData LField s"
  have gbi: "getByIndex p (fieldManager s) = Some ?f"
    using assms(3) by (rule targetPosition_getByIndex)
  with assms(1) have ty: "type ?f = LField"
    by (auto dest!: getByIndex_mem simp: typed_def)
  from assms(3) have tp: "(if d = Prev then getPrevPosition (fieldManager s)
      else getNextPosition (fieldManager s)) = Some p"
    by (simp add: targetPosition_def)
  from assms(2) obtain s4 where
    u: "updateHierarchyData ?f (setChildrenActive ?f ?s0) = Done () s4" and
    s': "s' = batchStateUpdates s4" and
    x: "x = Some LField"
    unfolding byField_def Let_def tp
    by (auto simp: gbi andThen_Done)
  let ?s3 = "setChildrenActive ?f ?s0"
  from updateHierarchyData_Done [OF u] ty obtain rg rs rc where
    s4: "s4 = ?s3\<lparr>groupManager := rg, setManager := rs, cardManager := rc\<rparr>" and
    syg: "syncedLevel (groupIndex (parentHierarchy ?f)) (items (groupManager ?s3)) (items rg)" and
    sys: "syncedLevel (setIndex (parentHierarchy ?f)) (items (setManager ?s3)) (items rs)" and
    syc: "syncedLevel (cardIndex (parentHierarchy ?f)) (items (cardManager ?s3)) (items rc)"
    by auto
  have 4: "allClear (items (fieldManager s'))"
    by (simp add: s' s4 setChildrenActive_sel(1-4) ty)
  have 5: "inputsFollowFields (items (fieldManager s')) (items (inputManager s'))"
    by (simp add: s' s4 inputsFollowFields_setChildrenActive)
  have 6: "syncedLevel (groupIndex (parentHierarchy ?f)) (items (groupManager s)) (items (groupManager s'))"
    using syg by (simp add: s' s4 setChildrenActive_sel ty)
  have 7: "syncedLevel (setIndex (parentHierarchy ?f)) (items (setManager s)) (items (setManager s'))"
    using sys by (simp add: s' s4 setChildrenActive_sel ty)
  have 8: "syncedLevel (cardIndex (parentHierarchy ?f)) (items (cardManager s)) (items (cardManager s'))"
    using syc by (simp add: s' s4 setChildrenActive_sel)
  from gbi x 4 5 6 7 8 show ?thesis by blast
qed

lemma filter_eq_upt: "filter (\<lambda>j. m = j) [0..<n] = (if m < n then [m] else [])"
  by (induction n) auto

lemma one_true_at_most:
  "length (filter id (map (\<lambda>j. k = Some j) [0..<n])) \<le> 1"
proof (cases k)
  case None then show ?thesis by simp
next
  case (Some m)
  have "length (filter id (map (\<lambda>j. k = Some j) [0..<n])) = length (filter (\<lambda>j. m = j) [0..<n])"
    by (simp add: filter_map comp_def Some)
  then show ?thesis by (simp add: filter_eq_upt)
qed

lemma one_current_via_index:
  assumes "map current ys = map (\<lambda>j. k = Some j) [0..<length ys]"
  shows "length (filter current ys) \<le> 1"
proof -
  have "length (filter current ys) = length (filter id (map current ys))"
    by (simp add: filter_map comp_def)
  also have "\<dots> \<le> 1" unfolding assms by (rule one_true_at_most)
  finally show ?thesis .
qed

lemma childrenMarked_nth:
  assumes "childrenMarked P ys" and "j < length ys"
  shows "active (ys ! j) = P (ys ! j)" and "current (ys ! j) = (findIndex P ys = Some j)"
proof -
  from assms(1) have a: "map active ys = map P ys"
    and c: "map current ys = map (\<lambda>j. findIndex P ys = Some j) [0..<length ys]"
    by (simp_all add: childrenMarked_def)
  from a have "map active ys ! j = map P ys ! j" by (rule arg_cong)
  with assms(2) show "active (ys ! j) = P (ys ! j)" by simp
  from c have "map current ys ! j = map (\<lambda>j. findIndex P ys = Some j) [0..<length ys] ! j"
    by (rule arg_cong)
  with assms(2) show "current (ys ! j) = (findIndex P ys = Some j)" by simp
qed

lemma childrenMarked_exclusive:
  assumes "childrenMarked P ys"
  shows "exclusive ys"
proof -
  from assms have "map current ys = map (\<lambda>j. findIndex P ys = Some j) [0..<length ys]"
    by (simp add: childrenMarked_def)
  then have 1: "length (filter current ys) \<le> 1" by (rule one_current_via_index)
  have 2: "current x \<longrightarrow> active x" if "x \<in> set ys" for x
  proof -
    from that obtain j where j: "j < length ys" and x: "ys ! j = x"
      by (auto simp: in_set_conv_nth)
    from childrenMarked_nth [OF assms j] x show ?thesis
      by (auto dest: findIndex_holds)
  qed
  from 1 2 show ?thesis by (simp add: exclusive_def)
qed

lemma inputsFollowFields_nth:
  assumes "inputsFollowFields fs ins" and "j < length ins"
  shows "active (ins ! j) = (\<exists>f \<in> set fs. active f \<and> resolvesTo fs (id' f) LField (ins ! j))"
    and "current (ins ! j) =
           (case filter active fs of [] \<Rightarrow> False
            | f # _ \<Rightarrow> findIndex (resolvesTo fs (id' f) LField) ins = Some j)"
proof -
  let ?act = "filter active fs"
  from assms(1) have a: "map active ins =
      map (\<lambda>i. list_ex (\<lambda>f. resolvesTo fs (id' f) LField i) ?act) ins"
    and c: "map current ins =
        map (\<lambda>j. case ?act of [] \<Rightarrow> False
                  | f # _ \<Rightarrow> findIndex (resolvesTo fs (id' f) LField) ins = Some j)
          [0..<length ins]"
    by (simp_all add: inputsFollowFields_def Let_def)
  from a have "map active ins ! j =
      map (\<lambda>i. list_ex (\<lambda>f. resolvesTo fs (id' f) LField i) ?act) ins ! j" by (rule arg_cong)
  with assms(2) show "active (ins ! j) =
      (\<exists>f \<in> set fs. active f \<and> resolvesTo fs (id' f) LField (ins ! j))"
    by (auto simp: list_ex_iff)
  from c have "map current ins ! j =
        map (\<lambda>j. case ?act of [] \<Rightarrow> False
                  | f # _ \<Rightarrow> findIndex (resolvesTo fs (id' f) LField) ins = Some j)
          [0..<length ins] ! j" by (rule arg_cong)
  with assms(2) show "current (ins ! j) =
           (case ?act of [] \<Rightarrow> False
            | f # _ \<Rightarrow> findIndex (resolvesTo fs (id' f) LField) ins = Some j)"
    by (simp split: list.splits)
qed

lemma inputsFollowFields_exclusive:
  assumes "inputsFollowFields fs ins"
  shows "exclusive ins"
proof -
  let ?act = "filter active fs"
  let ?k = "case ?act of [] \<Rightarrow> None | f # _ \<Rightarrow> findIndex (resolvesTo fs (id' f) LField) ins"
  from assms have "map current ins =
        map (\<lambda>j. case ?act of [] \<Rightarrow> False
                  | f # _ \<Rightarrow> findIndex (resolvesTo fs (id' f) LField) ins = Some j)
          [0..<length ins]"
    by (simp add: inputsFollowFields_def Let_def)
  also have "\<dots> = map (\<lambda>j. ?k = Some j) [0..<length ins]"
    by (cases ?act) simp_all
  finally have 1: "length (filter current ins) \<le> 1" by (rule one_current_via_index)
  have 2: "current x \<longrightarrow> active x" if "x \<in> set ins" for x
  proof
    assume cx: "current x"
    from that obtain j where j: "j < length ins" and x: "ins ! j = x"
      by (auto simp: in_set_conv_nth)
    from cx x inputsFollowFields_nth(2) [OF assms j] obtain f rest where
      act: "?act = f # rest" and fi: "findIndex (resolvesTo fs (id' f) LField) ins = Some j"
      by (cases ?act) auto
    from act have "f \<in> set ?act" by simp
    then have "f \<in> set fs" "active f" by simp_all
    moreover from fi have "resolvesTo fs (id' f) LField (ins ! j)" by (rule findIndex_holds)
    ultimately show "active x"
      using inputsFollowFields_nth(1) [OF assms j] x by auto
  qed
  from 1 2 show ?thesis by (simp add: exclusive_def)
qed

lemma byCard_None: "targetPosition d (cardManager s) = None \<Longrightarrow> byCard d s = Done None s"
  by (simp add: byCard_def targetPosition_def)

lemma bySet_None: "targetPosition d (setManager s) = None \<Longrightarrow> bySet d s = byCard d s"
  by (simp add: bySet_def targetPosition_def)

lemma byGroup_None: "targetPosition d (groupManager s) = None \<Longrightarrow> byGroup d s = bySet d s"
  by (simp add: byGroup_def targetPosition_def)

lemma byField_None: "targetPosition d (fieldManager s) = None \<Longrightarrow> byField d s = byGroup d s"
  by (simp add: byField_def targetPosition_def)

lemma byCard_exclusive:
  assumes "typed s" and "exclusiveAll s" and "byCard d s = Done x s'"
  shows "exclusiveAll s'"
proof (cases "targetPosition d (cardManager s)")
  case None
  with assms(3) have "s' = s" by (simp add: byCard_None)
  with assms(2) show ?thesis by simp
next
  case (Some p)
  from byCard_effect [OF assms(1,3) Some] show ?thesis
    by (auto simp: exclusiveAll_def onlyAt_exclusive childrenMarked_exclusive
        inputsFollowFields_exclusive)
qed

lemma bySet_exclusive:
  assumes "typed s" and "exclusiveAll s" and "bySet d s = Done x s'"
  shows "exclusiveAll s'"
proof (cases "targetPosition d (setManager s)")
  case None
  with assms show ?thesis by (simp add: bySet_None byCard_exclusive)
next
  case (Some p)
  from bySet_effect [OF assms(1,3) Some] assms(2) show ?thesis
    by (auto simp: exclusiveAll_def onlyAt_exclusive childrenMarked_exclusive
        inputsFollowFields_exclusive dest: syncedLevel_exclusive)
qed

lemma byGroup_exclusive:
  assumes "typed s" and "exclusiveAll s" and "byGroup d s = Done x s'"
  shows "exclusiveAll s'"
proof (cases "targetPosition d (groupManager s)")
  case None
  with assms show ?thesis by (simp add: byGroup_None bySet_exclusive)
next
  case (Some p)
  from byGroup_effect [OF assms(1,3) Some] assms(2) show ?thesis
    by (auto simp: exclusiveAll_def onlyAt_exclusive childrenMarked_exclusive
        inputsFollowFields_exclusive dest: syncedLevel_exclusive)
qed

lemma byField_exclusive:
  assumes "typed s" and "exclusiveAll s" and "byField d s = Done x s'"
  shows "exclusiveAll s'"
proof (cases "targetPosition d (fieldManager s)")
  case None
  with assms show ?thesis by (simp add: byField_None byGroup_exclusive)
next
  case (Some p)
  from byField_effect [OF assms(1,3) Some] assms(2) show ?thesis
    by (auto simp: exclusiveAll_def allClear_exclusive
        inputsFollowFields_exclusive dest: syncedLevel_exclusive)
qed

lemma discard_Done: "(discard m = Done x s') = (\<exists>y. m = Done y s')"
  by (cases m) auto

lemma exclusiveAll_emit [simp]: "exclusiveAll (emit e s) = exclusiveAll s"
  by (simp add: exclusiveAll_def emit_def)

lemma handleMove_exclusive:
  assumes "typed s" and "exclusiveAll s" and "handleMove d s = Done x s'"
  shows "exclusiveAll s'"
  using assms
  by (auto simp: handleMove_def discard_Done split: if_splits
      dest: byCard_exclusive bySet_exclusive byGroup_exclusive byField_exclusive)

lemma typed_stateOf:
  "skeleton (stateOf m) = skeleton s \<Longrightarrow> m = Done x s' \<Longrightarrow> typed s' = typed s"
  using typed_skeleton [of s' s] by simp

lemma handleMove_typed:
  assumes "handleMove d s = Done x s'"
  shows "typed s' = typed s"
  using skeleton_handleMove [of d s] assms by (rule typed_stateOf)

lemma moves_exclusive:
  "typed s \<Longrightarrow> exclusiveAll s \<Longrightarrow> moves ds s = Done x s' \<Longrightarrow> exclusiveAll s' \<and> typed s'"
proof (induction ds arbitrary: s)
  case Nil then show ?case by simp
next
  case (Cons d ds)
  from Cons.prems(3) obtain s1 where 1: "handleMove d s = Done () s1" and 2: "moves ds s1 = Done x s'"
    by (auto simp: andThen_Done)
  from handleMove_exclusive [OF Cons.prems(1,2) 1] have e: "exclusiveAll s1" .
  from handleMove_typed [OF 1] Cons.prems(1) have t: "typed s1" by simp
  from Cons.IH [OF t e 2] show ?case .
qed

subsection \<open>The resolvers\<close>

lemmas registry_defs =
  getNextPosition_def getPrevPosition_def getByIndex_def clearActiveAndCurrent_def
  setActive_def setCurrent_def parentIndex_def resolvesTo_def setActiveByParent_def
  getActive_def getByFilter_def rebuildAll_def calculateStates_def

lemmas navigation_defs =
  validateCurrent_def clearHierarchyData_def setChildrenActive_def updateGroup_def
  updateSet_def updateCard_def updateHierarchyData_def batchStateUpdates_def byCard_def
  bySet_def byGroup_def byField_def canMove_def handleMove_def emit_def setStates_def
  onGroupManager_def onSetManager_def onCardManager_def managerItems_def targetPosition_def

lemma unit_outcome_Done: "\<not> isThrown m \<Longrightarrow> m = Done () (stateOf m)"
  by (cases m) auto

lemma outcome_Done: "\<not> isThrown m \<Longrightarrow> \<exists>x. m = Done x (stateOf m)"
  by (cases m) auto

lemma resolve_Id_distinct:
  "distinct (map id' xs) \<Longrightarrow> p < length xs \<Longrightarrow> resolve (Id (id' (xs ! p))) xs = Some p"
  by (simp add: findIndex_distinct)

lemma byCard_resolved:
  "byCard d s = Done (Some l) s' \<Longrightarrow> \<exists>p. targetPosition d (cardManager s) = Some p"
  by (cases "targetPosition d (cardManager s)") (auto simp: byCard_None)

lemma byCard_inputs:
  assumes "typed s" and "byCard d s = Done (Some l) s'"
  shows "inputsFollowFields (items (fieldManager s')) (items (inputManager s'))"
proof -
  from byCard_resolved [OF assms(2)] obtain p where "targetPosition d (cardManager s) = Some p" ..
  from byCard_effect [OF assms this] show ?thesis by blast
qed

lemma bySet_inputs:
  assumes "typed s" and "bySet d s = Done (Some l) s'"
  shows "inputsFollowFields (items (fieldManager s')) (items (inputManager s'))"
proof (cases "targetPosition d (setManager s)")
  case None
  with assms show ?thesis by (simp add: bySet_None byCard_inputs)
next
  case (Some p)
  from bySet_effect [OF assms Some] show ?thesis by blast
qed

lemma byGroup_inputs:
  assumes "typed s" and "byGroup d s = Done (Some l) s'"
  shows "inputsFollowFields (items (fieldManager s')) (items (inputManager s'))"
proof (cases "targetPosition d (groupManager s)")
  case None
  with assms show ?thesis by (simp add: byGroup_None bySet_inputs)
next
  case (Some p)
  from byGroup_effect [OF assms Some] show ?thesis by blast
qed

lemma byField_inputs:
  assumes "typed s" and "byField d s = Done (Some l) s'"
  shows "inputsFollowFields (items (fieldManager s')) (items (inputManager s'))"
proof (cases "targetPosition d (fieldManager s)")
  case None
  with assms show ?thesis by (simp add: byField_None byGroup_inputs)
next
  case (Some p)
  from byField_effect [OF assms Some] show ?thesis by blast
qed

lemma byCard_unresolved: "byCard d s = Done None s' \<Longrightarrow> s' = s"
proof (cases "targetPosition d (cardManager s)")
  case None
  assume "byCard d s = Done None s'"
  with None show ?thesis by (simp add: byCard_None)
next
  case (Some p)
  assume a: "byCard d s = Done None s'"
  from a Some show ?thesis
    by (auto simp: byCard_def targetPosition_def Let_def targetPosition_getByIndex andThen_Done
        split: option.splits if_splits)
qed

lemma bySet_unresolved: "bySet d s = Done None s' \<Longrightarrow> s' = s"
proof (cases "targetPosition d (setManager s)")
  case None
  assume "bySet d s = Done None s'"
  with None show ?thesis by (simp add: bySet_None byCard_unresolved)
next
  case (Some p)
  assume a: "bySet d s = Done None s'"
  from a Some show ?thesis
    by (auto simp: bySet_def targetPosition_def Let_def andThen_Done
        split: option.splits if_splits)
qed

lemma byGroup_unresolved: "byGroup d s = Done None s' \<Longrightarrow> s' = s"
proof (cases "targetPosition d (groupManager s)")
  case None
  assume "byGroup d s = Done None s'"
  with None show ?thesis by (simp add: byGroup_None bySet_unresolved)
next
  case (Some p)
  assume a: "byGroup d s = Done None s'"
  from a Some show ?thesis
    by (auto simp: byGroup_def targetPosition_def Let_def andThen_Done
        split: option.splits if_splits)
qed

lemma byField_unresolved: "byField d s = Done None s' \<Longrightarrow> s' = s"
proof (cases "targetPosition d (fieldManager s)")
  case None
  assume "byField d s = Done None s'"
  with None show ?thesis by (simp add: byField_None byGroup_unresolved)
next
  case (Some p)
  assume a: "byField d s = Done None s'"
  from a Some show ?thesis
    by (auto simp: byField_def targetPosition_def Let_def andThen_Done
        split: option.splits if_splits)
qed

lemma handleMove_inputs:
  assumes "typed s" and "handleMove d s = Done () s'" and "states s' \<noteq> states s"
  shows "inputsFollowFields (items (fieldManager s')) (items (inputManager s'))"
proof -
  have r: "inputsFollowFields (items (fieldManager s')) (items (inputManager s'))"
    if "m = Done x s'"
      and "\<And>l. m = Done (Some l) s' \<Longrightarrow>
             inputsFollowFields (items (fieldManager s')) (items (inputManager s'))"
      and "m = Done None s' \<Longrightarrow> s' = s"
    for m :: "level option outcome" and x
    using that assms(3) by (cases x) auto
  from assms(2,3) consider
    "\<exists>x. byCard Next s = Done x s'" | "\<exists>x. byField d s = Done x s'" |
    "\<exists>x. byGroup d s = Done x s'" | "\<exists>x. bySet d s = Done x s'" | "\<exists>x. byCard d s = Done x s'"
    by (auto simp: handleMove_def discard_Done emit_def split: if_splits)
  then show ?thesis
  proof cases
    case 1 then show ?thesis
      using r [of "byCard Next s"] byCard_inputs [OF assms(1)] byCard_unresolved by blast
  next
    case 2 then show ?thesis
      using r [of "byField d s"] byField_inputs [OF assms(1)] byField_unresolved by blast
  next
    case 3 then show ?thesis
      using r [of "byGroup d s"] byGroup_inputs [OF assms(1)] byGroup_unresolved by blast
  next
    case 4 then show ?thesis
      using r [of "bySet d s"] bySet_inputs [OF assms(1)] bySet_unresolved by blast
  next
    case 5 then show ?thesis
      using r [of "byCard d s"] byCard_inputs [OF assms(1)] byCard_unresolved by blast
  qed
qed

lemma resolved_item_marked:
  assumes "typed s"
  shows "(targetPosition d (groupManager s) = Some p \<and> byGroup d s = Done x s'
            \<and> distinct (map id' (items (groupManager s))) \<longrightarrow>
            x = Some LGroup \<and> onlyAt p (items (groupManager s')) \<and>
            childrenMarked (resolvesTo (items (groupManager s)) (id' (items (groupManager s) ! p)) LGroup)
              (items (fieldManager s')))
       \<and> (targetPosition d (setManager s) = Some p \<and> bySet d s = Done x s'
            \<and> distinct (map id' (items (setManager s))) \<longrightarrow>
            x = Some LSet \<and> onlyAt p (items (setManager s')) \<and>
            childrenMarked (resolvesTo (items (setManager s)) (id' (items (setManager s) ! p)) LSet)
              (items (groupManager s')) \<and>
            childrenMarked (resolvesTo (items (setManager s)) (id' (items (setManager s) ! p)) LSet)
              (items (fieldManager s')))
       \<and> (targetPosition d (cardManager s) = Some p \<and> byCard d s = Done x s'
            \<and> distinct (map id' (items (cardManager s))) \<longrightarrow>
            x = Some LCard \<and> onlyAt p (items (cardManager s')) \<and>
            childrenMarked (resolvesTo (items (cardManager s)) (id' (items (cardManager s) ! p)) LCard)
              (items (setManager s')) \<and>
            childrenMarked (resolvesTo (items (cardManager s)) (id' (items (cardManager s) ! p)) LCard)
              (items (groupManager s')) \<and>
            childrenMarked (resolvesTo (items (cardManager s)) (id' (items (cardManager s) ! p)) LCard)
              (items (fieldManager s')))"
proof (intro conjI impI)
  assume a: "targetPosition d (groupManager s) = Some p \<and> byGroup d s = Done x s'
            \<and> distinct (map id' (items (groupManager s)))"
  then have g: "getByIndex p (groupManager s) = Some (items (groupManager s) ! p)"
    and l: "p < length (items (groupManager s))"
    by (blast intro: targetPosition_getByIndex targetPosition_less)+
  from a have "distinct (map id' (items (groupManager s)))" by simp
  from resolve_Id_distinct [OF this l] a byGroup_effect [OF assms, of d x s' p] g
  show "x = Some LGroup" and "onlyAt p (items (groupManager s'))"
    and "childrenMarked (resolvesTo (items (groupManager s)) (id' (items (groupManager s) ! p)) LGroup)
              (items (fieldManager s'))"
    by auto
next
  assume a: "targetPosition d (setManager s) = Some p \<and> bySet d s = Done x s'
            \<and> distinct (map id' (items (setManager s)))"
  then have g: "getByIndex p (setManager s) = Some (items (setManager s) ! p)"
    and l: "p < length (items (setManager s))"
    by (blast intro: targetPosition_getByIndex targetPosition_less)+
  from a have "distinct (map id' (items (setManager s)))" by simp
  from resolve_Id_distinct [OF this l] a bySet_effect [OF assms, of d x s' p] g
  show "x = Some LSet" and "onlyAt p (items (setManager s'))"
    and "childrenMarked (resolvesTo (items (setManager s)) (id' (items (setManager s) ! p)) LSet)
              (items (groupManager s'))"
    and "childrenMarked (resolvesTo (items (setManager s)) (id' (items (setManager s) ! p)) LSet)
              (items (fieldManager s'))"
    by auto
next
  assume a: "targetPosition d (cardManager s) = Some p \<and> byCard d s = Done x s'
            \<and> distinct (map id' (items (cardManager s)))"
  then have g: "getByIndex p (cardManager s) = Some (items (cardManager s) ! p)"
    and l: "p < length (items (cardManager s))"
    by (blast intro: targetPosition_getByIndex targetPosition_less)+
  from a have "distinct (map id' (items (cardManager s)))" by simp
  from resolve_Id_distinct [OF this l] a byCard_effect [OF assms, of d x s' p] g
  show "x = Some LCard" and "onlyAt p (items (cardManager s'))"
    and "childrenMarked (resolvesTo (items (cardManager s)) (id' (items (cardManager s) ! p)) LCard)
              (items (setManager s'))"
    and "childrenMarked (resolvesTo (items (cardManager s)) (id' (items (cardManager s) ! p)) LCard)
              (items (groupManager s'))"
    and "childrenMarked (resolvesTo (items (cardManager s)) (id' (items (cardManager s) ! p)) LCard)
              (items (fieldManager s'))"
    by auto
qed

lemma byField_marks_no_field:
  assumes "typed s" and "targetPosition d (fieldManager s) = Some p"
    and "byField d s = Done x s'"
  shows "x = Some LField \<and> allClear (items (fieldManager s')) \<and> allClear (items (inputManager s'))"
proof -
  from byField_effect [OF assms(1,3,2)] have x: "x = Some LField"
    and f: "allClear (items (fieldManager s'))"
    and i: "inputsFollowFields (items (fieldManager s')) (items (inputManager s'))"
    by blast+
  from f have n: "filter active (items (fieldManager s')) = []"
    by (auto simp: allClear_def filter_empty_conv)
  have "\<not> active y \<and> \<not> current y" if "y \<in> set (items (inputManager s'))" for y
  proof -
    from that obtain j where j: "j < length (items (inputManager s'))"
      and y: "items (inputManager s') ! j = y"
      by (auto simp: in_set_conv_nth)
    from inputsFollowFields_nth [OF i j] f n y show ?thesis
      by (auto simp: allClear_def)
  qed
  with x f show ?thesis by (simp add: allClear_def)
qed

subsection \<open>A move to the previous step does not depend on the validity of the inputs\<close>

lemma markChildren_map:
  assumes "\<And>x. P (g x) = P x"
    and "\<And>x. g (x\<lparr>active := True, current := True\<rparr>) = (g x)\<lparr>active := True, current := True\<rparr>"
    and "\<And>x. g (x\<lparr>active := True\<rparr>) = (g x)\<lparr>active := True\<rparr>"
  shows "markChildren P b (map g xs) = map g (markChildren P b xs)"
  using assms by (induction xs arbitrary: b) auto

lemma findIndex_map: "findIndex P (map g xs) = findIndex (\<lambda>x. P (g x)) xs"
  by (induction xs) auto

lemma resolvesTo_isValid [simp]:
  "resolvesTo ps pid pt (x\<lparr>isValid := v\<rparr>) = resolvesTo ps pid pt x"
  by (simp add: resolvesTo_def)

lemma setActiveByParent_isValid:
  "setActiveByParent ps pid pt b (r\<lparr>items := map (\<lambda>i. i\<lparr>isValid := True\<rparr>) (items r)\<rparr>) =
   (setActiveByParent ps pid pt b r)
     \<lparr>items := map (\<lambda>i. i\<lparr>isValid := True\<rparr>) (items (setActiveByParent ps pid pt b r))\<rparr>"
  by (simp add: setActiveByParent_def markChildren_map)

lemma forEachActiveField_isValid:
  "forEachActiveField fs idx flds (r\<lparr>items := map (\<lambda>i. i\<lparr>isValid := True\<rparr>) (items r)\<rparr>) =
   (forEachActiveField fs idx flds r)
     \<lparr>items := map (\<lambda>i. i\<lparr>isValid := True\<rparr>) (items (forEachActiveField fs idx flds r))\<rparr>"
  by (induction flds arbitrary: idx r) (simp_all add: setActiveByParent_isValid)

lemma clearActiveAndCurrent_isValid:
  "clearActiveAndCurrent (r\<lparr>items := map (\<lambda>i. i\<lparr>isValid := True\<rparr>) (items r)\<rparr>) =
   (clearActiveAndCurrent r)
     \<lparr>items := map (\<lambda>i. i\<lparr>isValid := True\<rparr>) (items (clearActiveAndCurrent r))\<rparr>"
  by (simp add: clearActiveAndCurrent_def)

lemma clearHierarchyData_eraseValidity:
  "clearHierarchyData t (eraseValidity s) = eraseValidity (clearHierarchyData t s)"
  by (simp add: clearHierarchyData_def eraseValidity_def Let_def)

lemma setChildrenActive_eraseValidity:
  "setChildrenActive e (eraseValidity s) = eraseValidity (setChildrenActive e s)"
  by (simp add: setChildrenActive_def eraseValidity_def Let_def managerItems_def
      clearActiveAndCurrent_isValid forEachActiveField_isValid split: level.splits)

lemma batchStateUpdates_eraseValidity:
  "batchStateUpdates (eraseValidity s) = eraseValidity (batchStateUpdates s)"
  by (simp add: batchStateUpdates_def eraseValidity_def Let_def setStates_def rebuildAll_def
      calculateStates_def findIndex_map)

lemma onManager_eraseValidity:
  "onGroupManager f (eraseValidity s) = mapState eraseValidity (onGroupManager f s)"
  "onSetManager f (eraseValidity s) = mapState eraseValidity (onSetManager f s)"
  "onCardManager f (eraseValidity s) = mapState eraseValidity (onCardManager f s)"
  by (simp_all add: onGroupManager_def onSetManager_def onCardManager_def eraseValidity_def
      split: sum.splits)

lemma eraseValidity_sel [simp]:
  "cardManager (eraseValidity s) = cardManager s"
  "setManager (eraseValidity s) = setManager s"
  "groupManager (eraseValidity s) = groupManager s"
  "fieldManager (eraseValidity s) = fieldManager s"
  "behavior (eraseValidity s) = behavior s"
  "navigationEnabled (eraseValidity s) = navigationEnabled s"
  by (simp_all add: eraseValidity_def)

lemma clear_manager_eraseValidity:
  "(eraseValidity s)\<lparr>groupManager := r\<rparr> = eraseValidity (s\<lparr>groupManager := r\<rparr>)"
  "(eraseValidity s)\<lparr>setManager := r\<rparr> = eraseValidity (s\<lparr>setManager := r\<rparr>)"
  "(eraseValidity s)\<lparr>cardManager := r\<rparr> = eraseValidity (s\<lparr>cardManager := r\<rparr>)"
  by (simp_all add: eraseValidity_def)

lemma updateGroup_eraseValidity:
  "updateGroup e (eraseValidity s) = mapState eraseValidity (updateGroup e s)"
  unfolding updateGroup_def
  by (auto split: option.splits intro!: andThen_comm
      simp: onManager_eraseValidity clear_manager_eraseValidity)

lemma updateSet_eraseValidity:
  "updateSet e (eraseValidity s) = mapState eraseValidity (updateSet e s)"
  unfolding updateSet_def
  by (auto split: option.splits intro!: andThen_comm
      simp: onManager_eraseValidity clear_manager_eraseValidity)

lemma updateCard_eraseValidity:
  "updateCard e (eraseValidity s) = mapState eraseValidity (updateCard e s)"
  unfolding updateCard_def
  by (auto split: option.splits intro!: andThen_comm
      simp: onManager_eraseValidity clear_manager_eraseValidity)

lemma updateHierarchyData_eraseValidity:
  "updateHierarchyData e (eraseValidity s) = mapState eraseValidity (updateHierarchyData e s)"
  unfolding updateHierarchyData_def
  by (intro andThen_comm updateGroup_eraseValidity updateSet_eraseValidity
      updateCard_eraseValidity)

lemma byCard_eraseValidity:
  "byCard d (eraseValidity s) = mapState eraseValidity (byCard d s)"
  unfolding byCard_def Let_def eraseValidity_sel
  by (auto split: option.splits intro!: andThen_comm
      simp: clearHierarchyData_eraseValidity setChildrenActive_eraseValidity
        batchStateUpdates_eraseValidity onManager_eraseValidity)

lemma bySet_eraseValidity:
  "bySet d (eraseValidity s) = mapState eraseValidity (bySet d s)"
  unfolding bySet_def Let_def eraseValidity_sel
  by (auto split: option.splits intro!: andThen_comm
      simp: clearHierarchyData_eraseValidity setChildrenActive_eraseValidity
        batchStateUpdates_eraseValidity onManager_eraseValidity byCard_eraseValidity
        updateHierarchyData_eraseValidity)

lemma byGroup_eraseValidity:
  "byGroup d (eraseValidity s) = mapState eraseValidity (byGroup d s)"
  unfolding byGroup_def Let_def eraseValidity_sel
  by (auto split: option.splits intro!: andThen_comm
      simp: clearHierarchyData_eraseValidity setChildrenActive_eraseValidity
        batchStateUpdates_eraseValidity onManager_eraseValidity bySet_eraseValidity
        updateHierarchyData_eraseValidity)

lemma byField_eraseValidity:
  "byField d (eraseValidity s) = mapState eraseValidity (byField d s)"
  unfolding byField_def Let_def eraseValidity_sel
  by (auto split: option.splits intro!: andThen_comm
      simp: clearHierarchyData_eraseValidity setChildrenActive_eraseValidity
        batchStateUpdates_eraseValidity onManager_eraseValidity byGroup_eraseValidity
        updateHierarchyData_eraseValidity)

lemma handleMove_Prev_eraseValidity:
  "handleMove Prev (eraseValidity s) = mapState eraseValidity (handleMove Prev s)"
  by (simp add: handleMove_def canMove_def byField_eraseValidity byGroup_eraseValidity
      bySet_eraseValidity byCard_eraseValidity)

section \<open>Properties of the ButtonManager\<close>

text \<open>
  C8. For every button store, \<^verbatim>\<open>determineNextOrSubmit\<close> gives \<^verbatim>\<open>next\<close> when some
  button of type next is active and visible; otherwise \<^verbatim>\<open>submit\<close> when some button of
  type submit is active and visible; otherwise \<^verbatim>\<open>next\<close>. A submit button that is not
  active never overrides an active next button.
\<close>

theorem determineNextOrSubmit_spec:
  "determineNextOrSubmit store =
     (if \<exists>b \<in> set store. type b = Next \<and> active b \<and> visible b then Next
      else if \<exists>b \<in> set store. type b = Submit \<and> active b \<and> visible b then Submit
      else Next)"
  by (rule determineNextOrSubmit_char)

theorem determineNextOrSubmit_spec_witness:
  "determineNextOrSubmit
     [\<lparr>index = 0, id' = ''submit-button-0'', active = False, type = Submit,
        disabled = True, visible = True\<rparr>,
      \<lparr>index = 1, id' = ''next-button-1'', active = True, type = Next,
        disabled = True, visible = True\<rparr>] = Next
   \<and> determineNextOrSubmit
     [\<lparr>index = 0, id' = ''submit-button-0'', active = True, type = Submit,
        disabled = False, visible = True\<rparr>,
      \<lparr>index = 1, id' = ''next-button-1'', active = False, type = Next,
        disabled = True, visible = True\<rparr>] = Submit
   \<and> determineNextOrSubmit
     [\<lparr>index = 0, id' = ''prev-button-0'', active = True, type = Prev,
        disabled = False, visible = True\<rparr>] = Next"
  by (simp add: determineNextOrSubmit_spec)

text \<open>
  C10. The result of \<^verbatim>\<open>determineNextOrSubmit\<close> is the same for two button stores that
  agree, button by button, on type, active and visible: neither the disabled flag nor
  the validity of any input enters it. So when it answers \<^verbatim>\<open>next\<close>, an Enter key press
  that passes the guards of the handler emits the navigation request for \<^verbatim>\<open>next\<close> and
  hands it to \<^verbatim>\<open>handleMove\<close>, whatever the validity of the inputs; with navigation
  enabled and an active, included input invalid, the request is then denied: both events
  are emitted and nothing else changes.
\<close>

theorem determineNextOrSubmit_ignores_disabled_and_validity:
  "(map (\<lambda>b. (type b, active b, visible b)) store1 =
      map (\<lambda>b. (type b, active b, visible b)) store2
      \<longrightarrow> determineNextOrSubmit store1 = determineNextOrSubmit store2)
   \<and> (key ev = ''Enter'' \<and> \<not> shiftKey ev \<and> (isWithinForm f \<or> isBody f)
        \<and> tagName f \<noteq> Some ''BUTTON'' \<and> determineNextOrSubmit (buttonManager s) = Next
      \<longrightarrow> enterKeyHandler ev f s = handleMove Next (emit (NavigationRequest Next) s)
          \<and> (navigationEnabled s \<and> \<not> validateCurrent s
              \<longrightarrow> enterKeyHandler ev f s =
                    Done () (s\<lparr>emitted := emitted s @
                                [NavigationRequest Next, NavigationDenied ''invalid'']\<rparr>)))"
proof (intro conjI impI)
  assume eq: "map (\<lambda>b. (type b, active b, visible b)) store1 =
              map (\<lambda>b. (type b, active b, visible b)) store2"
  have ex: "(\<exists>b \<in> set st. type b = t \<and> active b \<and> visible b) =
            ((t, True, True) \<in> set (map (\<lambda>b. (type b, active b, visible b)) st))"
    for st :: "buttonItem list" and t
    by (auto simp: image_iff)
  show "determineNextOrSubmit store1 = determineNextOrSubmit store2"
    unfolding determineNextOrSubmit_char ex eq ..
next
  assume h: "key ev = ''Enter'' \<and> \<not> shiftKey ev \<and> (isWithinForm f \<or> isBody f)
        \<and> tagName f \<noteq> Some ''BUTTON'' \<and> determineNextOrSubmit (buttonManager s) = Next"
  then show e: "enterKeyHandler ev f s = handleMove Next (emit (NavigationRequest Next) s)"
    by (auto simp: enterKeyHandler_def emitNavigationRequest_def Let_def)
  assume "navigationEnabled s \<and> \<not> validateCurrent s"
  then show "enterKeyHandler ev f s =
      Done () (s\<lparr>emitted := emitted s @ [NavigationRequest Next, NavigationDenied ''invalid'']\<rparr>)"
    unfolding e
    by (simp add: handleMove_def canMove_def emit_def validateCurrent_def)
qed

theorem determineNextOrSubmit_ignores_disabled_and_validity_witness:
  "map (\<lambda>b. (type b, active b, visible b)) (buttonManager exampleForm) =
     map (\<lambda>b. (type b, active b, visible b))
       (map (\<lambda>b. b\<lparr>disabled := True\<rparr>) (buttonManager exampleForm))
   \<and> determineNextOrSubmit (buttonManager exampleForm) =
       determineNextOrSubmit (map (\<lambda>b. b\<lparr>disabled := True\<rparr>) (buttonManager exampleForm))
   \<and> determineNextOrSubmit (buttonManager invalidForm) = Next
   \<and> navigationEnabled invalidForm \<and> \<not> validateCurrent invalidForm
   \<and> enterKeyHandler enterKey focusOnInput invalidForm =
       Done () (invalidForm\<lparr>emitted := [NavigationRequest Next, NavigationDenied ''invalid'']\<rparr>)"
proof -
  have a: "map (\<lambda>b. (type b, active b, visible b)) (buttonManager exampleForm) =
     map (\<lambda>b. (type b, active b, visible b))
       (map (\<lambda>b. b\<lparr>disabled := True\<rparr>) (buttonManager exampleForm))"
    by (simp add: example_defs)
  have b: "key enterKey = ''Enter'' \<and> \<not> shiftKey enterKey
      \<and> (isWithinForm focusOnInput \<or> isBody focusOnInput)
      \<and> tagName focusOnInput \<noteq> Some ''BUTTON''
      \<and> determineNextOrSubmit (buttonManager invalidForm) = Next"
    by (simp add: example_defs determineNextOrSubmit_def ButtonManager_getActive_def)
  have c: "navigationEnabled invalidForm \<and> \<not> validateCurrent invalidForm"
    by (simp add: example_defs validateCurrent_def getByFilter_def)
  have e: "emitted invalidForm = []"
    by (simp add: example_defs)
  note t = determineNextOrSubmit_ignores_disabled_and_validity
         [of "buttonManager exampleForm"
             "map (\<lambda>b. b\<lparr>disabled := True\<rparr>) (buttonManager exampleForm)"
             enterKey focusOnInput invalidForm]
  from t a have 1: "determineNextOrSubmit (buttonManager exampleForm) =
       determineNextOrSubmit (map (\<lambda>b. b\<lparr>disabled := True\<rparr>) (buttonManager exampleForm))"
    by blast
  from t b c have "enterKeyHandler enterKey focusOnInput invalidForm =
       Done () (invalidForm\<lparr>emitted := emitted invalidForm @
                  [NavigationRequest Next, NavigationDenied ''invalid'']\<rparr>)"
    by blast
  then have 2: "enterKeyHandler enterKey focusOnInput invalidForm =
       Done () (invalidForm\<lparr>emitted := [NavigationRequest Next, NavigationDenied ''invalid'']\<rparr>)"
    by (simp add: e)
  from a b c 1 2 show ?thesis by blast
qed

section \<open>Properties of the NavigationManager\<close>

text \<open>
  C1. With navigation enabled (the flag is initialised to true and never assigned), in
  every state in which some input that is active and included is not valid,
  \<^verbatim>\<open>handleMove('next')\<close> and \<^verbatim>\<open>handleMove('submit')\<close> emit the denied event with reason
  \<^verbatim>\<open>invalid\<close> and return with nothing else changed: no flag of any registry, no
  rebuild, no committed state. \<^verbatim>\<open>handleMove('prev')\<close> passes the gate in every state,
  whatever the validity of the inputs: it goes to the resolver of the configured behavior,
  emits no event, and on two forms that differ only in the validity of their inputs its
  outcomes differ only in that.
\<close>

theorem handleMove_validity_gate:
  assumes "navigationEnabled s"
  shows "((\<exists>input \<in> set (items (inputManager s)).
              active input \<and> isIncluded input \<and> \<not> isValid input)
          \<longrightarrow> handleMove Next s =
                Done () (s\<lparr>emitted := emitted s @ [NavigationDenied ''invalid'']\<rparr>)
              \<and> handleMove Submit s =
                Done () (s\<lparr>emitted := emitted s @ [NavigationDenied ''invalid'']\<rparr>))
       \<and> canMove Prev s
       \<and> handleMove Prev s =
           (if behavior s = ''byField'' then discard (byField Prev s)
            else if behavior s = ''byGroup'' then discard (byGroup Prev s)
            else if behavior s = ''bySet'' then discard (bySet Prev s)
            else if behavior s = ''byCard'' then discard (byCard Prev s)
            else Thrown (FormError ''Invalid behavior'' ''runtime''
                           (BehaviorCause (behavior s))) s)
       \<and> emitted (stateOf (handleMove Prev s)) = emitted s
       \<and> (eraseValidity s2 = eraseValidity s
          \<longrightarrow> mapState eraseValidity (handleMove Prev s2) =
                mapState eraseValidity (handleMove Prev s))"
proof (intro conjI impI)
  assume "\<exists>input \<in> set (items (inputManager s)).
            active input \<and> isIncluded input \<and> \<not> isValid input"
  then have nv: "\<not> validateCurrent s"
    by (auto simp: validateCurrent_iff)
  with assms show "handleMove Next s =
      Done () (s\<lparr>emitted := emitted s @ [NavigationDenied ''invalid'']\<rparr>)"
    by (simp add: handleMove_def canMove_def emit_def)
  from nv assms show "handleMove Submit s =
      Done () (s\<lparr>emitted := emitted s @ [NavigationDenied ''invalid'']\<rparr>)"
    by (simp add: handleMove_def canMove_def emit_def)
next
  show "canMove Prev s" by (simp add: canMove_def)
next
  from assms show "handleMove Prev s =
           (if behavior s = ''byField'' then discard (byField Prev s)
            else if behavior s = ''byGroup'' then discard (byGroup Prev s)
            else if behavior s = ''bySet'' then discard (bySet Prev s)
            else if behavior s = ''byCard'' then discard (byCard Prev s)
            else Thrown (FormError ''Invalid behavior'' ''runtime''
                           (BehaviorCause (behavior s))) s)"
    by (simp add: handleMove_def canMove_def)
next
  show "emitted (stateOf (handleMove Prev s)) = emitted s"
    by (simp add: handleMove_def canMove_def)
next
  assume "eraseValidity s2 = eraseValidity s"
  then have "handleMove Prev (eraseValidity s2) = handleMove Prev (eraseValidity s)"
    by simp
  then show "mapState eraseValidity (handleMove Prev s2) =
      mapState eraseValidity (handleMove Prev s)"
    by (simp only: handleMove_Prev_eraseValidity)
qed

theorem handleMove_validity_gate_witness:
  "navigationEnabled invalidForm
   \<and> \<not> isValid (items (inputManager invalidForm) ! 0)
   \<and> handleMove Next invalidForm =
       Done () (invalidForm\<lparr>emitted := [NavigationDenied ''invalid'']\<rparr>)
   \<and> handleMove Submit invalidForm =
       Done () (invalidForm\<lparr>emitted := [NavigationDenied ''invalid'']\<rparr>)
   \<and> handleMove Prev invalidForm = discard (byCard Prev invalidForm)
   \<and> emitted (stateOf (handleMove Prev invalidForm)) = []
   \<and> eraseValidity exampleForm = eraseValidity invalidForm
   \<and> mapState eraseValidity (handleMove Prev exampleForm) =
       mapState eraseValidity (handleMove Prev invalidForm)"
proof -
  have h: "navigationEnabled invalidForm"
    by (simp add: example_defs)
  have i: "\<exists>input \<in> set (items (inputManager invalidForm)).
             active input \<and> isIncluded input \<and> \<not> isValid input"
    by (simp add: example_defs)
  have e: "emitted invalidForm = []" "behavior invalidForm = ''byCard''"
    "\<not> isValid (items (inputManager invalidForm) ! 0)"
    by (simp_all add: example_defs)
  have v: "eraseValidity exampleForm = eraseValidity invalidForm"
    by (simp add: eraseValidity_def example_defs)
  from handleMove_validity_gate [OF h, of exampleForm] i e h v show ?thesis
    by simp
qed

text \<open>
  C2. When the position query of the Field registry gives undefined, \<^verbatim>\<open>byField\<close> is the
  call of \<^verbatim>\<open>byGroup\<close> with the same direction; likewise \<^verbatim>\<open>byGroup\<close> falls through to
  \<^verbatim>\<open>bySet\<close> and \<^verbatim>\<open>bySet\<close> to \<^verbatim>\<open>byCard\<close>; when the query of the Card registry gives
  undefined, \<^verbatim>\<open>byCard\<close> returns undefined in the unchanged state. So in field step mode
  a move that finds every level at its boundary returns with no registry changed and no
  state committed.
\<close>

theorem boundary_fallthrough:
  "(targetPosition direction (fieldManager s) = None
      \<longrightarrow> byField direction s = byGroup direction s)
   \<and> (targetPosition direction (groupManager s) = None
      \<longrightarrow> byGroup direction s = bySet direction s)
   \<and> (targetPosition direction (setManager s) = None
      \<longrightarrow> bySet direction s = byCard direction s)
   \<and> (targetPosition direction (cardManager s) = None
      \<longrightarrow> byCard direction s = Done None s)
   \<and> (navigationEnabled s \<and> canMove direction s \<and> direction \<noteq> Submit
        \<and> behavior s = ''byField''
        \<and> targetPosition direction (fieldManager s) = None
        \<and> targetPosition direction (groupManager s) = None
        \<and> targetPosition direction (setManager s) = None
        \<and> targetPosition direction (cardManager s) = None
      \<longrightarrow> handleMove direction s = Done () s)"
  by (auto simp: targetPosition_def byField_def byGroup_def bySet_def byCard_def
      handleMove_def)

theorem boundary_fallthrough_witness:
  "targetPosition Prev (fieldManager fieldModeForm) = None
   \<and> targetPosition Prev (groupManager fieldModeForm) = None
   \<and> targetPosition Prev (setManager fieldModeForm) = None
   \<and> targetPosition Prev (cardManager fieldModeForm) = None
   \<and> byField Prev fieldModeForm = byGroup Prev fieldModeForm
   \<and> byGroup Prev fieldModeForm = bySet Prev fieldModeForm
   \<and> bySet Prev fieldModeForm = byCard Prev fieldModeForm
   \<and> byCard Prev fieldModeForm = Done None fieldModeForm
   \<and> handleMove Prev fieldModeForm = Done () fieldModeForm"
proof -
  have p: "targetPosition Prev (fieldManager fieldModeForm) = None"
    "targetPosition Prev (groupManager fieldModeForm) = None"
    "targetPosition Prev (setManager fieldModeForm) = None"
    "targetPosition Prev (cardManager fieldModeForm) = None"
    by (simp_all add: example_defs targetPosition_def getPrevPosition_def)
  have h: "navigationEnabled fieldModeForm" "canMove Prev fieldModeForm"
    "behavior fieldModeForm = ''byField''"
    by (simp_all add: example_defs canMove_def)
  from boundary_fallthrough [of Prev fieldModeForm] p h show ?thesis
    by simp
qed

text \<open>
  C5. With navigation enabled and every active, included input valid,
  \<^verbatim>\<open>handleMove('submit')\<close> is the call of the card resolver with direction \<^verbatim>\<open>next\<close>,
  whatever the configured behavior. In every state it gives the registries, the events
  and the committed state that \<^verbatim>\<open>handleMove('next')\<close> gives on the same form configured
  to step by card.
\<close>

theorem submit_is_card_next:
  "(navigationEnabled s \<and> validateCurrent s \<longrightarrow> handleMove Submit s = discard (byCard Next s))
   \<and> handleMove Submit s =
       mapState (behavior_update (\<lambda>_. behavior s)) (handleMove Next (s\<lparr>behavior := ''byCard''\<rparr>))"
proof (intro conjI impI)
  assume "navigationEnabled s \<and> validateCurrent s"
  then show "handleMove Submit s = discard (byCard Next s)"
    by (simp add: handleMove_def canMove_def)
next
  have v: "validateCurrent (s\<lparr>behavior := ''byCard''\<rparr>) = validateCurrent s"
    by (simp add: validateCurrent_def)
  have 3: "mapState (behavior_update (\<lambda>_. behavior s))
             (mapState (behavior_update (\<lambda>_. ''byCard'')) x) = x"
    if "behavior (stateOf x) = behavior s" for x :: "unit outcome"
    using that by (cases x) auto
  show "handleMove Submit s =
       mapState (behavior_update (\<lambda>_. behavior s)) (handleMove Next (s\<lparr>behavior := ''byCard''\<rparr>))"
  proof (cases "navigationEnabled s \<and> validateCurrent s")
    case True
    then have 1: "handleMove Submit s = discard (byCard Next s)"
      by (simp add: handleMove_def canMove_def)
    from True v have 2: "handleMove Next (s\<lparr>behavior := ''byCard''\<rparr>) =
           discard (byCard Next (s\<lparr>behavior := ''byCard''\<rparr>))"
      by (simp add: handleMove_def canMove_def)
    show ?thesis
      unfolding 1 2 byCard_behavior by (simp add: 3)
  next
    case False
    then show ?thesis
      by (auto simp: handleMove_def canMove_def v emit_def)
  qed
qed

theorem submit_is_card_next_witness:
  "navigationEnabled fieldModeForm \<and> validateCurrent fieldModeForm
   \<and> handleMove Submit fieldModeForm = discard (byCard Next fieldModeForm)
   \<and> handleMove Submit fieldModeForm =
       mapState (behavior_update (\<lambda>_. ''byField'')) (handleMove Next exampleForm)"
proof -
  have h: "navigationEnabled fieldModeForm \<and> validateCurrent fieldModeForm"
    by (simp add: example_defs validateCurrent_def getByFilter_def)
  have b: "behavior fieldModeForm = ''byField''"
    "fieldModeForm\<lparr>behavior := ''byCard''\<rparr> = exampleForm"
    by (simp_all add: example_defs)
  note t = submit_is_card_next [of fieldModeForm]
  from t h have 1: "handleMove Submit fieldModeForm = discard (byCard Next fieldModeForm)"
    by blast
  from t have "handleMove Submit fieldModeForm =
      mapState (behavior_update (\<lambda>_. behavior fieldModeForm))
        (handleMove Next (fieldModeForm\<lparr>behavior := ''byCard''\<rparr>))"
    by blast
  then have 2: "handleMove Submit fieldModeForm =
       mapState (behavior_update (\<lambda>_. ''byField'')) (handleMove Next exampleForm)"
    by (simp only: b)
  from h 1 2 show ?thesis by blast
qed

text \<open>
  C9, as the code has it. With navigation enabled and the gate passed, a behavior that is
  none of \<^verbatim>\<open>byField\<close>, \<^verbatim>\<open>byGroup\<close>, \<^verbatim>\<open>bySet\<close>, \<^verbatim>\<open>byCard\<close> makes \<^verbatim>\<open>handleMove\<close> throw
  the error \<^verbatim>\<open>Invalid behavior\<close> with the behavior as its cause, in the unchanged state,
  for the directions \<^verbatim>\<open>prev\<close> and \<^verbatim>\<open>next\<close>. For \<^verbatim>\<open>submit\<close> the behavior is never
  looked at: the move is the card resolver's.
\<close>

theorem invalid_behavior_fatal:
  assumes "navigationEnabled s" and "canMove direction s"
    and "behavior s \<notin> {''byField'', ''byGroup'', ''bySet'', ''byCard''}"
  shows "(direction \<noteq> Submit \<longrightarrow>
           handleMove direction s =
             Thrown (FormError ''Invalid behavior'' ''runtime'' (BehaviorCause (behavior s))) s)
       \<and> (direction = Submit \<longrightarrow> handleMove direction s = discard (byCard Next s))"
  using assms by (auto simp: handleMove_def)

theorem invalid_behavior_fatal_witness:
  "navigationEnabled unknownModeForm \<and> canMove Next unknownModeForm
   \<and> behavior unknownModeForm = ''byPage''
   \<and> handleMove Next unknownModeForm =
       Thrown (FormError ''Invalid behavior'' ''runtime'' (BehaviorCause ''byPage''))
         unknownModeForm"
proof -
  have h: "navigationEnabled unknownModeForm" "canMove Next unknownModeForm"
    "behavior unknownModeForm \<notin> {''byField'', ''byGroup'', ''bySet'', ''byCard''}"
    by (simp_all add: example_defs canMove_def validateCurrent_def getByFilter_def)
  have b: "behavior unknownModeForm = ''byPage''"
    by (simp add: example_defs)
  from invalid_behavior_fatal [OF h] h b show ?thesis
    by simp
qed

text \<open>
  C9, as the claim states it, fails for \<^verbatim>\<open>submit\<close>: on the example form with the
  behavior \<^verbatim>\<open>byPage\<close>, navigation enabled and every input valid, \<^verbatim>\<open>handleMove('submit')\<close>
  throws nothing; it moves to the second card.
\<close>

theorem submit_with_invalid_behavior_moves:
  "navigationEnabled unknownModeForm \<and> canMove Submit unknownModeForm
   \<and> behavior unknownModeForm = ''byPage''
   \<and> \<not> isThrown (handleMove Submit unknownModeForm)
   \<and> map current (items (cardManager (stateOf (handleMove Submit unknownModeForm)))) =
       [False, True]"
  by (simp add: example_defs canMove_def handleMove_def validateCurrent_def getByFilter_def
      byCard_def getNextPosition_def getByIndex_def clearHierarchyData_def
      clearActiveAndCurrent_def onCardManager_def setActive_def setCurrent_def
      setChildrenActive_def setActiveByParent_def resolvesTo_def parentIndex_def
      managerItems_def getActive_def batchStateUpdates_def rebuildAll_def
      calculateStates_def setStates_def Let_def)

text \<open>
  C4. Exclusivity (at each of the five levels at most one item is current, and a current
  item is active) is preserved by each resolver and by every completed \<^verbatim>\<open>handleMove\<close>,
  hence by every completed sequence of moves, on registries that behave as section 4.1
  says and hold the items of their own type.
\<close>

theorem exclusivity_preserved:
  assumes "typed s" and "exclusiveAll s"
  shows "(byField d s = Done x s' \<longrightarrow> exclusiveAll s')
       \<and> (byGroup d s = Done x s' \<longrightarrow> exclusiveAll s')
       \<and> (bySet d s = Done x s' \<longrightarrow> exclusiveAll s')
       \<and> (byCard d s = Done x s' \<longrightarrow> exclusiveAll s')
       \<and> (handleMove d s = Done () s' \<longrightarrow> exclusiveAll s' \<and> typed s')
       \<and> (moves ds s = Done () s' \<longrightarrow> exclusiveAll s' \<and> typed s')"
  using assms
  by (auto dest: byField_exclusive byGroup_exclusive bySet_exclusive byCard_exclusive
      handleMove_exclusive moves_exclusive simp: handleMove_typed)

theorem exclusivity_preserved_witness:
  "typed fieldModeForm \<and> exclusiveAll fieldModeForm
   \<and> \<not> isThrown (handleMove Next fieldModeForm)
   \<and> exclusiveAll (stateOf (handleMove Next fieldModeForm))
   \<and> \<not> isThrown (moves [Next, Next, Prev, Submit] fieldModeForm)
   \<and> exclusiveAll (stateOf (moves [Next, Next, Prev, Submit] fieldModeForm))"
proof -
  have t: "typed fieldModeForm"
    by (simp add: typed_def example_defs)
  have e: "exclusiveAll fieldModeForm"
    by (simp add: exclusiveAll_def exclusive_def example_defs)
  have n1: "\<not> isThrown (handleMove Next fieldModeForm)"
    by (simp add: example_defs registry_defs navigation_defs Let_def)
  have n2: "\<not> isThrown (moves [Next, Next, Prev, Submit] fieldModeForm)"
    by (simp add: example_defs registry_defs navigation_defs Let_def)
  from n1 have m1: "handleMove Next fieldModeForm = Done () (stateOf (handleMove Next fieldModeForm))"
    by (rule unit_outcome_Done)
  from n2 have m2: "moves [Next, Next, Prev, Submit] fieldModeForm =
      Done () (stateOf (moves [Next, Next, Prev, Submit] fieldModeForm))"
    by (rule unit_outcome_Done)
  from exclusivity_preserved [OF t e, of Next _ "stateOf (handleMove Next fieldModeForm)"] m1
  have 1: "exclusiveAll (stateOf (handleMove Next fieldModeForm))" by blast
  from exclusivity_preserved [OF t e, of _ _ "stateOf (moves [Next, Next, Prev, Submit] fieldModeForm)"
      "[Next, Next, Prev, Submit]"] m2
  have 2: "exclusiveAll (stateOf (moves [Next, Next, Prev, Submit] fieldModeForm))" by blast
  from t e n1 n2 1 2 show ?thesis by blast
qed

text \<open>
  C6, as the code has it. After a successful resolution, each ancestor level the resolved
  item's type has is synced to the item's stored index: when the index is present (not
  null, not negative), exactly the item it names is active and current there; when it is
  absent, the level is left as it was. Levels the item type does not have are not synced:
  the level of a resolved group, set or card holds exactly the resolved item (ids being
  unique in the level), whatever \<^verbatim>\<open>parentHierarchy\<close> the item stores, and a resolved
  card triggers no upward sync.
\<close>

theorem upward_sync:
  assumes "typed s"
  shows "(targetPosition d (fieldManager s) = Some p \<and> byField d s = Done x s' \<longrightarrow>
            syncedLevel (groupIndex (parentHierarchy (items (fieldManager s) ! p)))
              (items (groupManager s)) (items (groupManager s')) \<and>
            syncedLevel (setIndex (parentHierarchy (items (fieldManager s) ! p)))
              (items (setManager s)) (items (setManager s')) \<and>
            syncedLevel (cardIndex (parentHierarchy (items (fieldManager s) ! p)))
              (items (cardManager s)) (items (cardManager s')))
       \<and> (targetPosition d (groupManager s) = Some p \<and> byGroup d s = Done x s' \<longrightarrow>
            (distinct (map id' (items (groupManager s))) \<longrightarrow> onlyAt p (items (groupManager s'))) \<and>
            syncedLevel (setIndex (parentHierarchy (items (groupManager s) ! p)))
              (items (setManager s)) (items (setManager s')) \<and>
            syncedLevel (cardIndex (parentHierarchy (items (groupManager s) ! p)))
              (items (cardManager s)) (items (cardManager s')))
       \<and> (targetPosition d (setManager s) = Some p \<and> bySet d s = Done x s' \<longrightarrow>
            (distinct (map id' (items (setManager s))) \<longrightarrow> onlyAt p (items (setManager s'))) \<and>
            syncedLevel (cardIndex (parentHierarchy (items (setManager s) ! p)))
              (items (cardManager s)) (items (cardManager s')))
       \<and> (targetPosition d (cardManager s) = Some p \<and> byCard d s = Done x s' \<longrightarrow>
            (distinct (map id' (items (cardManager s))) \<longrightarrow> onlyAt p (items (cardManager s'))))"
proof (intro conjI impI)
  assume a: "targetPosition d (fieldManager s) = Some p \<and> byField d s = Done x s'"
  then have g: "getByIndex p (fieldManager s) = Some (items (fieldManager s) ! p)"
    by (blast intro: targetPosition_getByIndex)
  from a byField_effect [OF assms, of d x s' p] g
  show "syncedLevel (groupIndex (parentHierarchy (items (fieldManager s) ! p)))
              (items (groupManager s)) (items (groupManager s'))"
    and "syncedLevel (setIndex (parentHierarchy (items (fieldManager s) ! p)))
              (items (setManager s)) (items (setManager s'))"
    and "syncedLevel (cardIndex (parentHierarchy (items (fieldManager s) ! p)))
              (items (cardManager s)) (items (cardManager s'))"
    by auto
next
  assume a: "targetPosition d (groupManager s) = Some p \<and> byGroup d s = Done x s'"
  then have g: "getByIndex p (groupManager s) = Some (items (groupManager s) ! p)"
    and l: "p < length (items (groupManager s))"
    by (blast intro: targetPosition_getByIndex targetPosition_less)+
  from a byGroup_effect [OF assms, of d x s' p] g
  show "syncedLevel (setIndex (parentHierarchy (items (groupManager s) ! p)))
              (items (setManager s)) (items (setManager s'))"
    and "syncedLevel (cardIndex (parentHierarchy (items (groupManager s) ! p)))
              (items (cardManager s)) (items (cardManager s'))"
    by auto
  assume "distinct (map id' (items (groupManager s)))"
  from resolve_Id_distinct [OF this l] a byGroup_effect [OF assms, of d x s' p] g
  show "onlyAt p (items (groupManager s'))" by auto
next
  assume a: "targetPosition d (setManager s) = Some p \<and> bySet d s = Done x s'"
  then have g: "getByIndex p (setManager s) = Some (items (setManager s) ! p)"
    and l: "p < length (items (setManager s))"
    by (blast intro: targetPosition_getByIndex targetPosition_less)+
  from a bySet_effect [OF assms, of d x s' p] g
  show "syncedLevel (cardIndex (parentHierarchy (items (setManager s) ! p)))
              (items (cardManager s)) (items (cardManager s'))"
    by auto
  assume "distinct (map id' (items (setManager s)))"
  from resolve_Id_distinct [OF this l] a bySet_effect [OF assms, of d x s' p] g
  show "onlyAt p (items (setManager s'))" by auto
next
  assume a: "targetPosition d (cardManager s) = Some p \<and> byCard d s = Done x s'"
  then have g: "getByIndex p (cardManager s) = Some (items (cardManager s) ! p)"
    and l: "p < length (items (cardManager s))"
    by (blast intro: targetPosition_getByIndex targetPosition_less)+
  assume "distinct (map id' (items (cardManager s)))"
  from resolve_Id_distinct [OF this l] a byCard_effect [OF assms, of d x s' p] g
  show "onlyAt p (items (cardManager s'))" by auto
qed

theorem upward_sync_witness:
  "typed fieldModeForm
   \<and> targetPosition Next (fieldManager fieldModeForm) = Some 1
   \<and> \<not> isThrown (byField Next fieldModeForm)
   \<and> parentHierarchy (items (fieldManager fieldModeForm) ! 1) =
       \<lparr>cardIndex = Some 1, setIndex = Some 1, groupIndex = Some 1, fieldIndex = None\<rparr>
   \<and> onlyAt 1 (items (groupManager (stateOf (byField Next fieldModeForm))))
   \<and> onlyAt 1 (items (setManager (stateOf (byField Next fieldModeForm))))
   \<and> onlyAt 1 (items (cardManager (stateOf (byField Next fieldModeForm))))
   \<and> targetPosition Next (groupManager groupModeForm) = Some 1
   \<and> onlyAt 1 (items (groupManager (stateOf (byGroup Next groupModeForm))))
   \<and> onlyAt 1 (items (setManager (stateOf (byGroup Next groupModeForm))))
   \<and> onlyAt 1 (items (cardManager (stateOf (byGroup Next groupModeForm))))
   \<and> targetPosition Next (setManager setModeForm) = Some 1
   \<and> onlyAt 1 (items (setManager (stateOf (bySet Next setModeForm))))
   \<and> onlyAt 1 (items (cardManager (stateOf (bySet Next setModeForm))))
   \<and> targetPosition Next (cardManager exampleForm) = Some 1
   \<and> onlyAt 1 (items (cardManager (stateOf (byCard Next exampleForm))))"
proof -
  have t: "typed fieldModeForm" "typed groupModeForm" "typed setModeForm" "typed exampleForm"
    by (simp_all add: typed_def example_defs)
  have p: "targetPosition Next (fieldManager fieldModeForm) = Some 1"
    "targetPosition Next (groupManager groupModeForm) = Some 1"
    "targetPosition Next (setManager setModeForm) = Some 1"
    "targetPosition Next (cardManager exampleForm) = Some 1"
    by (simp_all add: example_defs targetPosition_def getNextPosition_def)
  have h: "parentHierarchy (items (fieldManager fieldModeForm) ! 1) =
       \<lparr>cardIndex = Some 1, setIndex = Some 1, groupIndex = Some 1, fieldIndex = None\<rparr>"
    "parentHierarchy (items (groupManager groupModeForm) ! 1) =
       \<lparr>cardIndex = Some 1, setIndex = Some 1, groupIndex = None, fieldIndex = None\<rparr>"
    "parentHierarchy (items (setManager setModeForm) ! 1) =
       \<lparr>cardIndex = Some 1, setIndex = None, groupIndex = None, fieldIndex = None\<rparr>"
    by (simp_all add: example_defs)
  have d: "distinct (map id' (items (groupManager groupModeForm)))"
    "distinct (map id' (items (setManager setModeForm)))"
    "distinct (map id' (items (cardManager exampleForm)))"
    by (simp_all add: example_defs)
  have n: "\<not> isThrown (byField Next fieldModeForm)" "\<not> isThrown (byGroup Next groupModeForm)"
    "\<not> isThrown (bySet Next setModeForm)" "\<not> isThrown (byCard Next exampleForm)"
    by (simp_all add: example_defs registry_defs navigation_defs Let_def)
  from n obtain x1 x2 x3 x4 where m:
    "byField Next fieldModeForm = Done x1 (stateOf (byField Next fieldModeForm))"
    "byGroup Next groupModeForm = Done x2 (stateOf (byGroup Next groupModeForm))"
    "bySet Next setModeForm = Done x3 (stateOf (bySet Next setModeForm))"
    "byCard Next exampleForm = Done x4 (stateOf (byCard Next exampleForm))"
    by (blast dest: outcome_Done)
  have s1: "syncedLevel (Some 1) xs ys = onlyAt 1 ys" for xs ys
    by (simp add: syncedLevel_def ancestorAt_def)
  from upward_sync [OF t(1), of Next 1 x1 "stateOf (byField Next fieldModeForm)"] p(1) m(1) h(1)
  have 1: "onlyAt 1 (items (groupManager (stateOf (byField Next fieldModeForm))))"
    "onlyAt 1 (items (setManager (stateOf (byField Next fieldModeForm))))"
    "onlyAt 1 (items (cardManager (stateOf (byField Next fieldModeForm))))"
    by (simp_all add: s1)
  from upward_sync [OF t(2), of Next 1 x2 "stateOf (byGroup Next groupModeForm)"] p(2) m(2) h(2) d(1)
  have 2: "onlyAt 1 (items (groupManager (stateOf (byGroup Next groupModeForm))))"
    "onlyAt 1 (items (setManager (stateOf (byGroup Next groupModeForm))))"
    "onlyAt 1 (items (cardManager (stateOf (byGroup Next groupModeForm))))"
    by (simp_all add: s1)
  from upward_sync [OF t(3), of Next 1 x3 "stateOf (bySet Next setModeForm)"] p(3) m(3) h(3) d(2)
  have 3: "onlyAt 1 (items (setManager (stateOf (bySet Next setModeForm))))"
    "onlyAt 1 (items (cardManager (stateOf (bySet Next setModeForm))))"
    by (simp_all add: s1)
  from upward_sync [OF t(4), of Next 1 x4 "stateOf (byCard Next exampleForm)"] p(4) m(4) d(3)
  have 4: "onlyAt 1 (items (cardManager (stateOf (byCard Next exampleForm))))"
    by simp
  from t p n h 1 2 3 4 show ?thesis by blast
qed

text \<open>
  C6, as the claim states it, fails for an ancestor level whose index is absent: a field
  has the group level, but when the resolved field stores no group index the group level
  is neither cleared nor set. On the form whose second field lies directly in the second
  set, a move to that field leaves the first group active and current.
\<close>

theorem loose_field_leaves_group_level:
  "targetPosition Next (fieldManager looseFieldForm) = Some 1
   \<and> type (items (fieldManager looseFieldForm) ! 1) = LField
   \<and> groupIndex (parentHierarchy (items (fieldManager looseFieldForm) ! 1)) = None
   \<and> \<not> isThrown (byField Next looseFieldForm)
   \<and> flags (items (groupManager looseFieldForm)) =
       [(True, True), (False, False)]
   \<and> flags (items (groupManager (stateOf (byField Next looseFieldForm)))) =
       [(True, True), (False, False)]
   \<and> flags (items (setManager (stateOf (byField Next looseFieldForm)))) =
       [(False, False), (True, True)]"
  by (simp add: flags_def example_defs registry_defs navigation_defs Let_def)

text \<open>
  C7, as the code has it. After every successful resolution the inputs mirror the fields:
  exactly the inputs of the active fields are active, and exactly one input may be
  current, the first input of the first active field (\<^verbatim>\<open>firstIsCurrent\<close> is
  \<^verbatim>\<open>index === 0\<close>).
\<close>

theorem inputs_follow_fields:
  assumes "typed s"
  shows "(byField d s = Done (Some l) s' \<longrightarrow>
            inputsFollowFields (items (fieldManager s')) (items (inputManager s')))
       \<and> (byGroup d s = Done (Some l) s' \<longrightarrow>
            inputsFollowFields (items (fieldManager s')) (items (inputManager s')))
       \<and> (bySet d s = Done (Some l) s' \<longrightarrow>
            inputsFollowFields (items (fieldManager s')) (items (inputManager s')))
       \<and> (byCard d s = Done (Some l) s' \<longrightarrow>
            inputsFollowFields (items (fieldManager s')) (items (inputManager s')))
       \<and> (handleMove d s = Done () s' \<and> states s' \<noteq> states s \<longrightarrow>
            inputsFollowFields (items (fieldManager s')) (items (inputManager s')))"
  using assms
  by (blast intro: byField_inputs byGroup_inputs bySet_inputs byCard_inputs handleMove_inputs)

theorem inputs_follow_fields_witness:
  "typed exampleForm
   \<and> \<not> isThrown (handleMove Next exampleForm)
   \<and> states (stateOf (handleMove Next exampleForm)) \<noteq> states exampleForm
   \<and> inputsFollowFields (items (fieldManager (stateOf (handleMove Next exampleForm))))
       (items (inputManager (stateOf (handleMove Next exampleForm))))
   \<and> flags (items (fieldManager (stateOf (handleMove Next exampleForm)))) =
       [(False, False), (True, True), (True, False)]
   \<and> flags (items (inputManager (stateOf (handleMove Next exampleForm)))) =
       [(False, False), (True, True), (True, False)]"
proof -
  have t: "typed exampleForm"
    by (simp add: typed_def example_defs)
  have n: "\<not> isThrown (handleMove Next exampleForm)"
    by (simp add: example_defs registry_defs navigation_defs Let_def)
  then have m: "handleMove Next exampleForm = Done () (stateOf (handleMove Next exampleForm))"
    by (rule unit_outcome_Done)
  have c: "states (stateOf (handleMove Next exampleForm)) \<noteq> states exampleForm"
    by (simp add: example_defs registry_defs navigation_defs Let_def)
  have f: "flags (items (fieldManager (stateOf (handleMove Next exampleForm)))) =
       [(False, False), (True, True), (True, False)]"
    "flags (items (inputManager (stateOf (handleMove Next exampleForm)))) =
       [(False, False), (True, True), (True, False)]"
    by (simp_all add: flags_def example_defs registry_defs navigation_defs Let_def)
  from inputs_follow_fields [OF t, of Next _ "stateOf (handleMove Next exampleForm)"] m c
  have "inputsFollowFields (items (fieldManager (stateOf (handleMove Next exampleForm))))
       (items (inputManager (stateOf (handleMove Next exampleForm))))"
    by blast
  with t n c f show ?thesis by blast
qed

text \<open>
  C7, as the claim states it, fails: after the move to the second card of the example
  form both fields of that card are active and so are their inputs, but the input of the
  second of them is not current.
\<close>

theorem second_active_field_has_no_current_input:
  "\<not> isThrown (handleMove Next exampleForm)
   \<and> flags (items (fieldManager (stateOf (handleMove Next exampleForm)))) =
       [(False, False), (True, True), (True, False)]
   \<and> flags (items (inputManager (stateOf (handleMove Next exampleForm)))) =
       [(False, False), (True, True), (True, False)]
   \<and> fieldIndex (parentHierarchy (items (inputManager exampleForm) ! 2)) = Some 2
   \<and> \<not> eachActiveFieldHasCurrentInput
         (items (fieldManager (stateOf (handleMove Next exampleForm))))
         (items (inputManager (stateOf (handleMove Next exampleForm))))"
  by (simp add: flags_def eachActiveFieldHasCurrentInput_def example_defs registry_defs
      navigation_defs Let_def)

text \<open>
  C3 holds for a resolution at the group, set or card level (\<open>resolved_item_marked\<close>):
  those resolvers call \<^verbatim>\<open>setActive\<close> and \<^verbatim>\<open>setCurrent\<close> on the resolved item. At the
  field level it fails: \<^verbatim>\<open>byField\<close> clears the field registry and never marks the
  resolved field (\<open>byField_marks_no_field\<close>). On the example form stepping by field,
  \<^verbatim>\<open>handleMove('next')\<close> resolves the second field, and ends with no field and no input
  active or current, while the group of that field is active and current.
\<close>

theorem byField_leaves_resolved_field_inactive:
  "navigationEnabled fieldModeForm \<and> validateCurrent fieldModeForm
   \<and> targetPosition Next (fieldManager fieldModeForm) = Some 1
   \<and> byField Next fieldModeForm = Done (Some LField) (stateOf (byField Next fieldModeForm))
   \<and> handleMove Next fieldModeForm = Done () (stateOf (byField Next fieldModeForm))
   \<and> flags (items (fieldManager (stateOf (byField Next fieldModeForm)))) =
       [(False, False), (False, False), (False, False)]
   \<and> flags (items (inputManager (stateOf (byField Next fieldModeForm)))) =
       [(False, False), (False, False), (False, False)]
   \<and> flags (items (groupManager (stateOf (byField Next fieldModeForm)))) =
       [(False, False), (True, True)]"
  by (simp add: flags_def example_defs registry_defs navigation_defs Let_def)

end
